theory Spec2Isabelle
  imports Main "HOL-Library.AList"
begin

section \<open>JavaScript values\<close>

text \<open>
  The article tracker passes plain JavaScript objects around: article records read from
  \<^verbatim>\<open>chrome.storage.local\<close>, drafts scraped from the page, entries of a parsed JSON
  backup.  A value is one of the JSON shapes plus \<^verbatim>\<open>undefined\<close>.  An object is the list of
  its own properties; an absent property reads as \<^verbatim>\<open>undefined\<close>.

  A Number is named by its \<^verbatim>\<open>ToString\<close> image (\<^verbatim>\<open>"0"\<close>, \<^verbatim>\<open>"1.5"\<close>, \<^verbatim>\<open>"NaN"\<close>): the code
  never computes with the numbers it finds in a record, it only tests them for truthiness,
  copies them, or uses them as property keys.

  Strings are lists of code units; the model covers code units below 256.
\<close>

datatype jsval =
    JUndefined
  | JNull
  | JBool bool
  | JNum string
  | JStr string
  | JArr "jsval list"
  | JObj "(string \<times> jsval) list"

type_synonym jsobj = "(string \<times> jsval) list"

text \<open>\<^verbatim>\<open>ToBoolean\<close>: what \<^verbatim>\<open>!v\<close>, \<^verbatim>\<open>v || w\<close> and \<^verbatim>\<open>if (v)\<close> test.\<close>

fun truthy :: "jsval \<Rightarrow> bool" where
  "truthy JUndefined = False"
| "truthy JNull = False"
| "truthy (JBool b) = b"
| "truthy (JNum r) = (r \<noteq> ''0'' \<and> r \<noteq> ''NaN'')"
| "truthy (JStr s) = (s \<noteq> [])"
| "truthy (JArr xs) = True"
| "truthy (JObj ps) = True"

text \<open>\<^verbatim>\<open>a || b\<close> yields \<^verbatim>\<open>a\<close> when it is truthy and \<^verbatim>\<open>b\<close> otherwise;
  \<^verbatim>\<open>a && b\<close> yields \<^verbatim>\<open>a\<close> when it is falsy and \<^verbatim>\<open>b\<close> otherwise.\<close>

definition jsor :: "jsval \<Rightarrow> jsval \<Rightarrow> jsval" where
  "jsor a b = (if truthy a then a else b)"

definition jsand :: "jsval \<Rightarrow> jsval \<Rightarrow> jsval" where
  "jsand a b = (if truthy a then b else a)"

text \<open>\<^verbatim>\<open>typeof v === 'object'\<close> holds of \<^verbatim>\<open>null\<close>, arrays and objects.\<close>

fun typeofObject :: "jsval \<Rightarrow> bool" where
  "typeofObject JNull = True"
| "typeofObject (JArr xs) = True"
| "typeofObject (JObj ps) = True"
| "typeofObject v = False"

fun isString :: "jsval \<Rightarrow> bool" where
  "isString (JStr s) = True"
| "isString v = False"

fun isBoolean :: "jsval \<Rightarrow> bool" where
  "isBoolean (JBool b) = True"
| "isBoolean v = False"

fun isArray :: "jsval \<Rightarrow> bool" where
  "isArray (JArr xs) = True"
| "isArray v = False"

text \<open>Property read \<^verbatim>\<open>v.k\<close> on a value that is neither \<^verbatim>\<open>null\<close> nor \<^verbatim>\<open>undefined\<close>;
  on these two the read throws, and the functions below say so where the code reads
  without a test.  Only plain objects carry the properties the code asks for.\<close>

fun getp :: "jsval \<Rightarrow> string \<Rightarrow> jsval" where
  "getp (JObj ps) k = (case map_of ps k of Some v \<Rightarrow> v | None \<Rightarrow> JUndefined)"
| "getp v k = JUndefined"

text \<open>Whether \<open>k\<close> is among the own properties of a value.\<close>

fun ownKey :: "jsval \<Rightarrow> string \<Rightarrow> bool" where
  "ownKey (JObj ps) k = (map_of ps k \<noteq> None)"
| "ownKey v k = False"

text \<open>Assignment \<^verbatim>\<open>o.k = v\<close> on a plain object.\<close>

fun setp :: "jsval \<Rightarrow> string \<Rightarrow> jsval \<Rightarrow> jsval" where
  "setp (JObj ps) k v = JObj (AList.update k v ps)"
| "setp w k v = w"

text \<open>\<^verbatim>\<open>ToString\<close>, used when a value becomes a property key.\<close>

fun joinWith :: "string \<Rightarrow> string list \<Rightarrow> string" where
  "joinWith sep [] = []"
| "joinWith sep [s] = s"
| "joinWith sep (s # t # ss) = s @ sep @ joinWith sep (t # ss)"

fun jsToString :: "jsval \<Rightarrow> string" where
  "jsToString JUndefined = ''undefined''"
| "jsToString JNull = ''null''"
| "jsToString (JBool b) = (if b then ''true'' else ''false'')"
| "jsToString (JNum r) = r"
| "jsToString (JStr s) = s"
| "jsToString (JArr xs) =
     joinWith '','' (map (\<lambda>x. if x = JUndefined \<or> x = JNull then [] else jsToString x) xs)"
| "jsToString (JObj ps) = ''[object Object]''"

datatype error =
    TypeError
  | StorageError string
  | ImportError string

text \<open>
  The call \<^verbatim>\<open>v.hasOwnProperty(k)\<close> on a value that is neither \<^verbatim>\<open>null\<close> nor
  \<^verbatim>\<open>undefined\<close>, for the names the code asks about (\<^verbatim>\<open>isRead\<close>, and the keys of the
  cache).  The method is the one inherited from \<^verbatim>\<open>Object.prototype\<close>, unless the object
  has an own property named \<^verbatim>\<open>hasOwnProperty\<close>: the values of the model are data, none
  of them is a function, so the call then throws a \<^verbatim>\<open>TypeError\<close>.
\<close>

fun hasOwnProperty :: "jsval \<Rightarrow> string \<Rightarrow> error + bool" where
  "hasOwnProperty (JObj ps) k =
     (if ownKey (JObj ps) ''hasOwnProperty'' then Inl TypeError else Inr (ownKey (JObj ps) k))"
| "hasOwnProperty v k = Inr False"

section \<open>Strings\<close>

definition isWhiteSpace :: "char \<Rightarrow> bool" where
  "isWhiteSpace c =
     (c = CHR 0x09 \<or> c = CHR 0x0A \<or> c = CHR 0x0B \<or> c = CHR 0x0C \<or> c = CHR 0x0D
      \<or> c = CHR 0x20 \<or> c = CHR 0xA0)"

definition trim :: "string \<Rightarrow> string" where
  "trim s = rev (dropWhile isWhiteSpace (rev (dropWhile isWhiteSpace s)))"

definition startsWith :: "string \<Rightarrow> string \<Rightarrow> bool" where
  "startsWith s p = (take (length p) s = p)"

definition endsWith :: "string \<Rightarrow> string \<Rightarrow> bool" where
  "endsWith s p = (length p \<le> length s \<and> drop (length s - length p) s = p)"

section \<open>Configuration (config.js)\<close>

definition CONFIG_cache_ttl :: int where
  "CONFIG_cache_ttl = 30000"

definition CONFIG_storage_prefix :: string where
  "CONFIG_storage_prefix = ''article_''"

definition CONFIG_storage_filterKey :: string where
  "CONFIG_storage_filterKey = ''lethain_page_filter''"

definition defaultBaseUrl :: string where
  "defaultBaseUrl = ''https://lethain.com''"

section \<open>URL utilities (url-utils.js)\<close>

text \<open>
  \<^verbatim>\<open>normalizeUrl\<close> calls the browser's \<^verbatim>\<open>URL\<close> constructor, which is not code of this
  repository.  It is a parameter \<open>U\<close> of the model: \<open>U s b\<close> is the \<^verbatim>\<open>href\<close> of
  \<^verbatim>\<open>new URL(s, b)\<close>, or \<open>None\<close> when the constructor throws.
\<close>

type_synonym urlctor = "string \<Rightarrow> string \<Rightarrow> string option"

text \<open>The trailing-slash rule both branches of \<^verbatim>\<open>normalizeUrl\<close> apply.\<close>

definition stripSlash :: "string \<Rightarrow> string \<Rightarrow> string" where
  "stripSlash baseUrl n =
     (if endsWith n ''/'' \<and> n \<noteq> baseUrl @ ''/'' then butlast n else n)"

definition normalizeUrl :: "urlctor \<Rightarrow> string \<Rightarrow> string \<Rightarrow> string" where
  "normalizeUrl U url baseUrl =
     (if url = [] then []
      else
        (case U (trim url) baseUrl of
           Some href \<Rightarrow> stripSlash baseUrl href
         | None \<Rightarrow>
             (let normalized = stripSlash baseUrl (trim url)
              in if startsWith normalized ''http://'' \<or> startsWith normalized ''https://''
                 then normalized
                 else baseUrl @ (if startsWith normalized ''/'' then normalized
                                 else ''/'' @ normalized))))"

text \<open>
  \<^verbatim>\<open>normalizeUrl(v)\<close> on a property value: a falsy value gives the empty string, a
  string is normalized, and any other truthy value has no \<^verbatim>\<open>trim\<close> method, so the
  call throws a \<^verbatim>\<open>TypeError\<close> (in the \<^verbatim>\<open>try\<close> block and again in the \<^verbatim>\<open>catch\<close> block).
\<close>

fun normalizeUrlV :: "urlctor \<Rightarrow> jsval \<Rightarrow> error + string" where
  "normalizeUrlV U (JStr s) = Inr (normalizeUrl U s defaultBaseUrl)"
| "normalizeUrlV U v = (if truthy v then Inl TypeError else Inr [])"

text \<open>\<^verbatim>\<open>validateUrl\<close>, read as a condition.\<close>

fun validateUrl :: "jsval \<Rightarrow> bool" where
  "validateUrl (JStr s) = (s \<noteq> [] \<and> length (trim s) > 0)"
| "validateUrl v = False"

section \<open>Article utilities (article-utils.js)\<close>

text \<open>
  \<^verbatim>\<open>determineReadStatus\<close>.  \<open>now\<close> is what \<^verbatim>\<open>new Date().toISOString()\<close> returns when
  the function runs.  The result is the pair \<^verbatim>\<open>{isRead, readDate}\<close>, or the error
  thrown by the call of \<^verbatim>\<open>newArticle.hasOwnProperty\<close>.
\<close>

definition determineReadStatus ::
  "string \<Rightarrow> jsval \<Rightarrow> jsval \<Rightarrow> error + jsval \<times> jsval" where
  "determineReadStatus now existing0 newArticle =
     (let existing =
            (if existing0 \<noteq> JNull \<and> existing0 \<noteq> JUndefined
                \<and> (\<not> typeofObject existing0 \<or> isArray existing0)
             then JNull else existing0)
      in if \<not> truthy newArticle \<or> \<not> typeofObject newArticle \<or> isArray newArticle
         then Inr (JBool False, JNull)
         else
           (case hasOwnProperty newArticle ''isRead'' of
              Inl e \<Rightarrow> Inl e
            | Inr own \<Rightarrow>
                if own
                then
                  (let isRead = jsor (getp newArticle ''isRead'') (JBool False);
                       readDate =
                         (if getp newArticle ''readDate'' \<noteq> JUndefined
                          then getp newArticle ''readDate''
                          else if truthy isRead then JStr now else JNull)
                   in Inr (isRead, readDate))
                else if truthy existing
                then Inr (jsor (getp existing ''isRead'') (JBool False),
                          jsor (getp existing ''readDate'') JNull)
                else Inr (jsor (getp newArticle ''isRead'') (JBool False),
                          jsor (getp newArticle ''readDate'') JNull)))"

text \<open>\<^verbatim>\<open>mergeArticleState\<close>.  It reads the properties of \<^verbatim>\<open>newArticle\<close> without a
  test, so it throws a \<^verbatim>\<open>TypeError\<close> when \<^verbatim>\<open>newArticle\<close> is \<^verbatim>\<open>null\<close> or
  \<^verbatim>\<open>undefined\<close>, whatever \<^verbatim>\<open>existing\<close> is; and it throws when \<^verbatim>\<open>normalizeUrl\<close>
  does.\<close>

definition mergeArticleState :: "urlctor \<Rightarrow> jsval \<Rightarrow> jsval \<Rightarrow> error + jsval" where
  "mergeArticleState U existing newArticle =
     (if newArticle = JNull \<or> newArticle = JUndefined then Inl TypeError
      else if \<not> truthy existing
      then
        (case normalizeUrlV U (getp newArticle ''url'') of
           Inl e \<Rightarrow> Inl e
         | Inr u \<Rightarrow>
             Inr (JObj
               [(''url'', JStr u),
                (''title'', jsor (getp newArticle ''title'') (JStr [])),
                (''publishedDate'', jsor (getp newArticle ''publishedDate'') (JStr [])),
                (''dateText'',
                   jsor (jsor (getp newArticle ''dateText'') (getp newArticle ''publishedDate''))
                     (JStr [])),
                (''isRead'', jsor (getp newArticle ''isRead'') (JBool False)),
                (''readDate'', jsor (getp newArticle ''readDate'') JNull)]))
      else
        (case (if truthy (getp existing ''url'') then Inr (getp existing ''url'')
               else map_sum id JStr (normalizeUrlV U (getp newArticle ''url''))) of
           Inl e \<Rightarrow> Inl e
         | Inr u \<Rightarrow>
             Inr (JObj
               [(''url'', u),
                (''title'',
                   jsor (jsor (getp newArticle ''title'') (getp existing ''title'')) (JStr [])),
                (''publishedDate'',
                   jsor (jsor (getp newArticle ''publishedDate'') (getp existing ''publishedDate''))
                     (JStr [])),
                (''dateText'',
                   jsor (jsor (jsor (getp newArticle ''dateText'')
                                 (getp newArticle ''publishedDate''))
                           (getp existing ''dateText''))
                     (JStr [])),
                (''isRead'', jsor (getp existing ''isRead'') (JBool False)),
                (''readDate'', jsor (getp existing ''readDate'') JNull)])))"

text \<open>
  \<^verbatim>\<open>mergeArticleDataForImport\<close>.  The \<^verbatim>\<open>Date\<close> constructor is the platform's; it is the
  parameter \<open>D\<close>: \<open>D v\<close> is the time value (milliseconds) of \<^verbatim>\<open>new Date(v)\<close>, or \<open>None\<close>
  for an invalid date, whose time value is \<^verbatim>\<open>NaN\<close>.  The comparison \<^verbatim>\<open>a > b\<close> of two
  dates compares the time values and is false when either is \<^verbatim>\<open>NaN\<close>.  The result
  \<^verbatim>\<open>null\<close> (skip) is \<open>None\<close>.
\<close>

type_synonym datector = "jsval \<Rightarrow> int option"

definition dateGreater :: "int option \<Rightarrow> int option \<Rightarrow> bool" where
  "dateGreater a b = (case (a, b) of (Some x, Some y) \<Rightarrow> x > y | _ \<Rightarrow> False)"

definition importMerged :: "jsval \<Rightarrow> jsval \<Rightarrow> jsval" where
  "importMerged existing imported =
     JObj
       [(''url'', getp imported ''url''),
        (''title'', jsor (getp imported ''title'') (getp existing ''title'')),
        (''publishedDate'', jsor (getp imported ''publishedDate'') (getp existing ''publishedDate'')),
        (''dateText'', jsor (getp imported ''dateText'') (getp existing ''dateText'')),
        (''isRead'', JBool True),
        (''readDate'', getp imported ''readDate'')]"

definition mergeArticleDataForImport :: "datector \<Rightarrow> jsval \<Rightarrow> jsval \<Rightarrow> jsval option" where
  "mergeArticleDataForImport D existing imported =
     (if \<not> truthy existing \<or> \<not> typeofObject existing \<or> isArray existing then None
      else if \<not> truthy imported \<or> \<not> typeofObject imported \<or> isArray imported then None
      else if \<not> truthy (getp imported ''isRead'') then None
      else if \<not> truthy (getp existing ''isRead'') then Some (importMerged existing imported)
      else
        (let importedDate =
               (if truthy (getp imported ''readDate'') then Some (D (getp imported ''readDate''))
                else None);
             existingDate =
               (if truthy (getp existing ''readDate'') then Some (D (getp existing ''readDate''))
                else None)
         in case importedDate of
              None \<Rightarrow> None
            | Some i \<Rightarrow>
                (case existingDate of
                   None \<Rightarrow> Some (importMerged existing imported)
                 | Some e \<Rightarrow>
                     if dateGreater i e then Some (importMerged existing imported) else None)))"

text \<open>\<^verbatim>\<open>validateArticleStructure\<close>.\<close>

definition validateArticleStructure :: "jsval \<Rightarrow> bool" where
  "validateArticleStructure article =
     (if \<not> truthy article \<or> \<not> typeofObject article then False
      else if \<not> truthy (getp article ''url'') \<or> \<not> isString (getp article ''url'') then False
      else if getp article ''title'' \<noteq> JUndefined \<and> \<not> isString (getp article ''title'')
      then False
      else if getp article ''publishedDate'' \<noteq> JUndefined
              \<and> \<not> isString (getp article ''publishedDate'')
      then False
      else if getp article ''dateText'' \<noteq> JUndefined \<and> \<not> isString (getp article ''dateText'')
      then False
      else if getp article ''isRead'' \<noteq> JUndefined \<and> \<not> isBoolean (getp article ''isRead'')
      then False
      else if getp article ''readDate'' \<noteq> JUndefined \<and> getp article ''readDate'' \<noteq> JNull
              \<and> \<not> isString (getp article ''readDate'')
      then False
      else True)"

section \<open>The environment\<close>

text \<open>
  The state the modelled code reads and writes:
  \<^item> \<open>items\<close>: the content of \<^verbatim>\<open>chrome.storage.local\<close>, key by key;
  \<^item> \<open>lastErrors\<close>: what \<^verbatim>\<open>chrome.runtime.lastError\<close> will be in the callbacks of the
    coming storage calls, in call order (\<open>None\<close>: the call succeeds); once the list is
    used up every call succeeds;
  \<^item> \<open>storageCalls\<close>: a counter of the storage calls made so far; the code has no such
    variable, it is kept so that ``without a store fetch'' can be stated;
  \<^item> \<open>cacheLoaded\<close>: whether the cache module is part of the running context, that is
    whether \<^verbatim>\<open>typeof getArticlesCache === 'function'\<close> (it is a content-script module,
    the popup does not load it);
  \<^item> \<open>articlesCache\<close>, \<open>cacheTimestamp\<close>: the module variables of the cache; \<open>None\<close> is
    \<^verbatim>\<open>null\<close>.

  Each modelled operation runs to its end before the next one starts: the interleaving
  of asynchronous callbacks of different operations is not part of the model.
\<close>

record world =
  items :: jsobj
  lastErrors :: "string option list"
  storageCalls :: nat
  cacheLoaded :: bool
  articlesCache :: "jsobj option"
  cacheTimestamp :: int

definition nextCall :: "world \<Rightarrow> string option \<times> world" where
  "nextCall w =
     (case lastErrors w of
        [] \<Rightarrow> (None, w\<lparr>storageCalls := Suc (storageCalls w)\<rparr>)
      | e # es \<Rightarrow> (e, w\<lparr>lastErrors := es, storageCalls := Suc (storageCalls w)\<rparr>))"

text \<open>\<^verbatim>\<open>chrome.storage.local.get(keys, callback)\<close> wrapped in the promise every caller
  builds around it: a \<^verbatim>\<open>lastError\<close> rejects with its message.  \<open>None\<close> as keys is
  \<^verbatim>\<open>null\<close>, all items.\<close>

definition storageGet :: "string list option \<Rightarrow> world \<Rightarrow> (error + jsobj) \<times> world" where
  "storageGet keys w =
     (case nextCall w of
        (Some msg, w') \<Rightarrow> (Inl (StorageError msg), w')
      | (None, w') \<Rightarrow>
          (Inr (case keys of
                  None \<Rightarrow> items w
                | Some ks \<Rightarrow> filter (\<lambda>kv. fst kv \<in> set ks) (items w)), w'))"

text \<open>\<^verbatim>\<open>chrome.storage.local.set(data, callback)\<close>, likewise; a failed call writes
  nothing.\<close>

definition storageSet :: "jsobj \<Rightarrow> world \<Rightarrow> (error + unit) \<times> world" where
  "storageSet data w =
     (case nextCall w of
        (Some msg, w') \<Rightarrow> (Inl (StorageError msg), w')
      | (None, w') \<Rightarrow>
          (Inr (), w'\<lparr>items := fold (\<lambda>kv. AList.update (fst kv) (snd kv)) data (items w)\<rparr>))"

text \<open>A store none of whose coming calls fails.\<close>

definition storageHealthy :: "world \<Rightarrow> bool" where
  "storageHealthy w = list_all (\<lambda>e. e = None) (lastErrors w)"

section \<open>Storage (storage.js)\<close>

definition getStorageKey :: "urlctor \<Rightarrow> string \<Rightarrow> string" where
  "getStorageKey U url =
     (if url = [] then []
      else CONFIG_storage_prefix @ normalizeUrl U url defaultBaseUrl)"

text \<open>\<^verbatim>\<open>Storage.getArticle\<close>.  The result \<open>JNull\<close> is \<^verbatim>\<open>null\<close>.\<close>

fun getArticle :: "urlctor \<Rightarrow> jsval \<Rightarrow> world \<Rightarrow> (error + jsval) \<times> world" where
  "getArticle U (JStr url) w =
     (if url = [] \<or> \<not> validateUrl (JStr url) then (Inr JNull, w)
      else
        (let normalizedUrl = normalizeUrl U url defaultBaseUrl;
             key = getStorageKey U normalizedUrl
         in case storageGet (Some [key]) w of
              (Inl e, w') \<Rightarrow> (Inl e, w')
            | (Inr result, w') \<Rightarrow> (Inr (jsor (getp (JObj result) key) JNull), w')))"
| "getArticle U v w = (Inr JNull, w)"

text \<open>\<^verbatim>\<open>Storage.getAllArticles(false)\<close>: every modelled caller passes \<^verbatim>\<open>sorted = false\<close>.\<close>

definition getAllArticles :: "world \<Rightarrow> (error + jsval list) \<times> world" where
  "getAllArticles w =
     (case storageGet None w of
        (Inl e, w') \<Rightarrow> (Inl e, w')
      | (Inr its, w') \<Rightarrow>
          (Inr (map snd
                 (filter (\<lambda>kv. length (fst kv) \<ge> length CONFIG_storage_prefix
                              \<and> take (length CONFIG_storage_prefix) (fst kv) = CONFIG_storage_prefix)
                    its)), w'))"

text \<open>\<^verbatim>\<open>Storage.saveArticle\<close>.\<close>

definition saveArticle :: "urlctor \<Rightarrow> string \<Rightarrow> jsval \<Rightarrow> world \<Rightarrow> (error + jsval) \<times> world" where
  "saveArticle U now article w =
     (if \<not> truthy article \<or> \<not> typeofObject article then (Inr JNull, w)
      else if \<not> truthy (getp article ''url'') then (Inr JNull, w)
      else if \<not> validateArticleStructure article then (Inr JNull, w)
      else if \<not> validateUrl (getp article ''url'') then (Inr JNull, w)
      else
        (case normalizeUrlV U (getp article ''url'') of
           Inl e \<Rightarrow> (Inl e, w)
         | Inr normalizedUrl \<Rightarrow>
             (let key = getStorageKey U normalizedUrl
              in case getArticle U (JStr normalizedUrl) w of
                   (Inl e, w1) \<Rightarrow> (Inl e, w1)
                 | (Inr existing, w1) \<Rightarrow>
                     (case determineReadStatus now existing article of
                        Inl e \<Rightarrow> (Inl e, w1)
                      | Inr rs \<Rightarrow>
                          (let articleData = JObj
                                 [(''url'', JStr normalizedUrl),
                                  (''title'',
                                     jsor (jsor (getp article ''title'')
                                             (jsand existing (getp existing ''title'')))
                                       (JStr [])),
                                  (''publishedDate'',
                                     jsor (jsor (getp article ''publishedDate'')
                                             (jsand existing (getp existing ''publishedDate'')))
                                       (JStr [])),
                                  (''dateText'',
                                     jsor (jsor (jsor (getp article ''dateText'')
                                                   (getp article ''publishedDate''))
                                             (jsand existing (getp existing ''dateText'')))
                                       (JStr [])),
                                  (''isRead'', fst rs),
                                  (''readDate'', snd rs)]
                           in case storageSet [(key, articleData)] w1 of
                                (Inl e, w2) \<Rightarrow> (Inl e, w2)
                              | (Inr u, w2) \<Rightarrow> (Inr articleData, w2))))))"

section \<open>Article cache (article-cache.js)\<close>

text \<open>The loop of \<^verbatim>\<open>getArticlesCache\<close> that keys the fetched articles by their
  \<^verbatim>\<open>url\<close>.\<close>

fun buildCache :: "jsval list \<Rightarrow> jsobj \<Rightarrow> jsobj" where
  "buildCache [] cache = cache"
| "buildCache (article # rest) cache =
     (if truthy article \<and> truthy (getp article ''url'')
      then buildCache rest (AList.update (jsToString (getp article ''url'')) article cache)
      else buildCache rest cache)"

text \<open>\<^verbatim>\<open>getArticlesCache\<close>; \<open>now\<close> is the reading of \<^verbatim>\<open>Date.now()\<close>.\<close>

definition getArticlesCache :: "int \<Rightarrow> world \<Rightarrow> (error + jsobj) \<times> world" where
  "getArticlesCache now w =
     (if articlesCache w = None \<or> now - cacheTimestamp w > CONFIG_cache_ttl
      then
        (case getAllArticles w of
           (Inr articles, w') \<Rightarrow>
             (let cache = buildCache articles []
              in (Inr cache, w'\<lparr>articlesCache := Some cache, cacheTimestamp := now\<rparr>))
         | (Inl e, w') \<Rightarrow> (Inl e, w'\<lparr>articlesCache := Some [], cacheTimestamp := now\<rparr>))
      else (Inr (the (articlesCache w)), w))"

definition getArticleFromCache :: "urlctor \<Rightarrow> string \<Rightarrow> world \<Rightarrow> jsval" where
  "getArticleFromCache U url w =
     (case articlesCache w of
        None \<Rightarrow> JNull
      | Some cache \<Rightarrow>
          if url = [] then JNull
          else jsor (getp (JObj cache) (normalizeUrl U url defaultBaseUrl)) JNull)"

definition updateCacheArticle :: "urlctor \<Rightarrow> string \<Rightarrow> jsval \<Rightarrow> world \<Rightarrow> world" where
  "updateCacheArticle U url article w =
     (case articlesCache w of
        None \<Rightarrow> w
      | Some cache \<Rightarrow>
          (let normalizedUrl = normalizeUrl U url defaultBaseUrl
           in if truthy article
              then w\<lparr>articlesCache := Some (AList.update normalizedUrl article cache)\<rparr>
              else w\<lparr>articlesCache := Some (AList.delete normalizedUrl cache)\<rparr>))"

section \<open>Storage, continued: operations built on the cache and on saveArticle\<close>

text \<open>
  A JavaScript \<^verbatim>\<open>Map\<close>, as the list of its entries.  The code only ever looks a string
  up in these maps.
\<close>

type_synonym jsmap = "(jsval \<times> jsval) list"

definition mapGet :: "jsmap \<Rightarrow> jsval \<Rightarrow> jsval" where
  "mapGet m k = (case map_of m k of Some v \<Rightarrow> v | None \<Rightarrow> JUndefined)"

definition mapHas :: "jsmap \<Rightarrow> jsval \<Rightarrow> bool" where
  "mapHas m k = (map_of m k \<noteq> None)"

text \<open>The second loop of \<^verbatim>\<open>getExistingArticlesMap\<close>, over the fetched articles.\<close>

fun buildMap :: "jsval list \<Rightarrow> jsmap \<Rightarrow> jsmap" where
  "buildMap [] m = m"
| "buildMap (article # rest) m =
     (if truthy article \<and> truthy (getp article ''url'')
      then buildMap rest (AList.update (getp article ''url'') article m)
      else buildMap rest m)"

text \<open>The first loop of \<^verbatim>\<open>getExistingArticlesMap\<close>, over the keys of the cache.  It
  stops with the error of \<^verbatim>\<open>cache.hasOwnProperty(url)\<close> when that call throws.\<close>

fun cacheLoop :: "jsval \<Rightarrow> string list \<Rightarrow> jsmap \<Rightarrow> error + jsmap" where
  "cacheLoop cache [] m = Inr m"
| "cacheLoop cache (url # urls) m =
     (case hasOwnProperty cache url of
        Inl e \<Rightarrow> Inl e
      | Inr own \<Rightarrow>
          cacheLoop cache urls (if own then AList.update (JStr url) (getp cache url) m else m))"

text \<open>\<^verbatim>\<open>getExistingArticlesMap\<close>: the cache when the module is loaded and the cache
  answers, a fetch of all articles otherwise.  The \<^verbatim>\<open>catch\<close> block turns a failure of
  \<^verbatim>\<open>getArticlesCache\<close>, and an error thrown in the loop, into the fetch of all articles
  too.\<close>

definition getExistingArticlesMap :: "int \<Rightarrow> world \<Rightarrow> (error + jsmap) \<times> world" where
  "getExistingArticlesMap now w =
     (let viaCache =
            (if cacheLoaded w
             then (case getArticlesCache now w of
                     (Inr cache, w1) \<Rightarrow>
                       (case cacheLoop (JObj cache) (map fst cache) [] of
                          Inl e \<Rightarrow> (None, w1)
                        | Inr m \<Rightarrow> (Some m, w1))
                   | (Inl e, w1) \<Rightarrow> (None, w1))
             else (None, w))
      in case viaCache of
           (Some m, w1) \<Rightarrow> (Inr m, w1)
         | (None, w1) \<Rightarrow>
             (case getAllArticles w1 of
                (Inl e, w2) \<Rightarrow> (Inl e, w2)
              | (Inr existingArticles, w2) \<Rightarrow> (Inr (buildMap existingArticles []), w2)))"

text \<open>The page elements \<^verbatim>\<open>getOrCreateArticle\<close> reads: of the link its text content, of
  the article element the \<^verbatim>\<open>time\<close> element that \<^verbatim>\<open>querySelector\<close> finds in it, if any.\<close>

record timeElement =
  datetimeAttr :: "string option"
  textContent :: string

type_synonym linkElement = string

type_synonym articleElement = "timeElement option"

definition strOr :: "string \<Rightarrow> string \<Rightarrow> string" where
  "strOr a b = (if a \<noteq> [] then a else b)"

definition getOrCreateArticle ::
  "urlctor \<Rightarrow> string \<Rightarrow> string \<Rightarrow> linkElement option \<Rightarrow> articleElement option \<Rightarrow> world
    \<Rightarrow> (error + jsval) \<times> world" where
  "getOrCreateArticle U now url link articleEl w =
     (if url = [] \<or> \<not> validateUrl (JStr url) then (Inr JNull, w)
      else
        (let normalizedUrl = normalizeUrl U url defaultBaseUrl
         in case getArticle U (JStr normalizedUrl) w of
              (Inl e, w1) \<Rightarrow> (Inl e, w1)
            | (Inr article, w1) \<Rightarrow>
                if truthy article then (Inr article, w1)
                else
                  (let title = (case link of None \<Rightarrow> [] | Some text \<Rightarrow> strOr (trim text) []);
                       publishedDate =
                         (case articleEl of
                            Some (Some time) \<Rightarrow>
                              strOr (strOr (case datetimeAttr time of None \<Rightarrow> [] | Some d \<Rightarrow> d)
                                       (trim (textContent time))) []
                          | _ \<Rightarrow> []);
                       dateText =
                         (case articleEl of
                            Some (Some time) \<Rightarrow> strOr (trim (textContent time)) []
                          | _ \<Rightarrow> []);
                       newArticle = JObj
                         [(''url'', JStr normalizedUrl),
                          (''title'', JStr title),
                          (''publishedDate'', JStr publishedDate),
                          (''dateText'', JStr dateText),
                          (''isRead'', JBool False),
                          (''readDate'', JNull)]
                   in saveArticle U now newArticle w1)))"

text \<open>\<^verbatim>\<open>Storage.markAsRead\<close> and \<^verbatim>\<open>Storage.markAsUnread\<close>; \<open>now\<close> is the reading of
  \<^verbatim>\<open>new Date().toISOString()\<close>.\<close>

fun markAsRead ::
  "urlctor \<Rightarrow> string \<Rightarrow> jsval \<Rightarrow> linkElement option \<Rightarrow> articleElement option \<Rightarrow> world
    \<Rightarrow> (error + jsval) \<times> world" where
  "markAsRead U now (JStr url) link articleEl w =
     (if url = [] \<or> \<not> validateUrl (JStr url) then (Inr JNull, w)
      else
        (case getOrCreateArticle U now url link articleEl w of
           (Inl e, w1) \<Rightarrow> (Inl e, w1)
         | (Inr article, w1) \<Rightarrow>
             if \<not> truthy article then (Inr JNull, w1)
             else saveArticle U now
                    (setp (setp article ''isRead'' (JBool True)) ''readDate'' (JStr now)) w1))"
| "markAsRead U now v link articleEl w = (Inr JNull, w)"

fun markAsUnread ::
  "urlctor \<Rightarrow> string \<Rightarrow> jsval \<Rightarrow> linkElement option \<Rightarrow> articleElement option \<Rightarrow> world
    \<Rightarrow> (error + jsval) \<times> world" where
  "markAsUnread U now (JStr url) link articleEl w =
     (if url = [] \<or> \<not> validateUrl (JStr url) then (Inr JNull, w)
      else
        (case getOrCreateArticle U now url link articleEl w of
           (Inl e, w1) \<Rightarrow> (Inl e, w1)
         | (Inr article, w1) \<Rightarrow>
             if \<not> truthy article then (Inr JNull, w1)
             else saveArticle U now
                    (setp (setp article ''isRead'' (JBool False)) ''readDate'' JNull) w1))"
| "markAsUnread U now v link articleEl w = (Inr JNull, w)"

text \<open>The loop of \<^verbatim>\<open>Storage.saveArticles\<close> that fills \<^verbatim>\<open>data\<close>.\<close>

fun saveLoop :: "urlctor \<Rightarrow> jsmap \<Rightarrow> jsval list \<Rightarrow> jsobj \<Rightarrow> error + jsobj" where
  "saveLoop U existingMap [] data = Inr data"
| "saveLoop U existingMap (article # rest) data =
     (if \<not> truthy article \<or> \<not> truthy (getp article ''url'')
         \<or> \<not> validateUrl (getp article ''url'')
      then saveLoop U existingMap rest data
      else
        (case normalizeUrlV U (getp article ''url'') of
           Inl e \<Rightarrow> Inl e
         | Inr normalizedUrl \<Rightarrow>
             (let key = getStorageKey U normalizedUrl;
                  existing = mapGet existingMap (JStr normalizedUrl)
              in case mergeArticleState U existing article of
                   Inl e \<Rightarrow> Inl e
                 | Inr merged \<Rightarrow> saveLoop U existingMap rest (AList.update key merged data))))"

text \<open>\<^verbatim>\<open>Storage.saveArticles(articles, existingArticlesMap)\<close> on an array; the second
  argument is \<open>None\<close> when it is \<^verbatim>\<open>null\<close> or left out.\<close>

definition saveArticles ::
  "urlctor \<Rightarrow> int \<Rightarrow> jsval list \<Rightarrow> jsmap option \<Rightarrow> world \<Rightarrow> (error + unit) \<times> world" where
  "saveArticles U now articles existingArticlesMap w =
     (if articles = [] then (Inr (), w)
      else
        (case (case existingArticlesMap of
                 Some m \<Rightarrow> (Inr m, w)
               | None \<Rightarrow> getExistingArticlesMap now w) of
           (Inl e, w1) \<Rightarrow> (Inl e, w1)
         | (Inr existingMap, w1) \<Rightarrow>
             (case saveLoop U existingMap articles [] of
                Inl e \<Rightarrow> (Inl e, w1)
              | Inr data \<Rightarrow> if data \<noteq> [] then storageSet data w1 else (Inr (), w1))))"

text \<open>The loop of \<^verbatim>\<open>Storage.syncArticles\<close>: the articles to save and their count.\<close>

fun syncLoop :: "urlctor \<Rightarrow> jsmap \<Rightarrow> jsval list \<Rightarrow> jsval list \<times> nat \<Rightarrow> jsval list \<times> nat" where
  "syncLoop U existingMap [] acc = acc"
| "syncLoop U existingMap (newArticle # rest) acc =
     (if \<not> truthy newArticle \<or> \<not> truthy (getp newArticle ''url'')
         \<or> \<not> validateUrl (getp newArticle ''url'')
      then syncLoop U existingMap rest acc
      else
        (case getp newArticle ''url'' of
           JStr url \<Rightarrow>
             (let normalizedUrl = normalizeUrl U url defaultBaseUrl
              in if mapHas existingMap (JStr normalizedUrl)
                 then syncLoop U existingMap rest acc
                 else syncLoop U existingMap rest
                        (fst acc @ [setp newArticle ''url'' (JStr normalizedUrl)], Suc (snd acc)))
         | v \<Rightarrow> syncLoop U existingMap rest acc))"

text \<open>\<^verbatim>\<open>Storage.syncArticles\<close> on an array.\<close>

definition syncArticles ::
  "urlctor \<Rightarrow> int \<Rightarrow> jsval list \<Rightarrow> world \<Rightarrow> (error + nat) \<times> world" where
  "syncArticles U now newArticles w =
     (if newArticles = [] then (Inr 0, w)
      else
        (case getExistingArticlesMap now w of
           (Inl e, w1) \<Rightarrow> (Inl e, w1)
         | (Inr existingMap, w1) \<Rightarrow>
             (let loop = syncLoop U existingMap newArticles ([], 0);
                  articlesToSave = fst loop;
                  newCount = snd loop
              in if articlesToSave \<noteq> []
                 then (case saveArticles U now articlesToSave (Some existingMap) w1 of
                         (Inl e, w2) \<Rightarrow> (Inl e, w2)
                       | (Inr u, w2) \<Rightarrow> (Inr newCount, w2))
                 else (Inr newCount, w1))))"

section \<open>Import (export-import.js, validators.js)\<close>

definition validateArticle :: "jsval \<Rightarrow> bool" where
  "validateArticle article =
     (truthy article \<and> typeofObject article \<and> truthy (getp article ''url''))"

text \<open>\<^verbatim>\<open>validateImportData\<close>: \<open>None\<close> is \<^verbatim>\<open>{valid: true}\<close>, \<open>Some msg\<close> is
  \<^verbatim>\<open>{valid: false, error: msg}\<close>.\<close>

definition validateImportData :: "jsval \<Rightarrow> string option" where
  "validateImportData importData =
     (if \<not> truthy importData \<or> \<not> typeofObject importData
      then Some ''Invalid file format. Expected an object.''
      else if \<not> truthy (getp importData ''articles'') \<or> \<not> isArray (getp importData ''articles'')
      then Some ''Invalid file format. The file must contain an array of articles.''
      else None)"

datatype resultType = Updated | Skipped | Imported

text \<open>The body of the function \<^verbatim>\<open>processImportBatch\<close> maps over the valid articles.\<close>

definition processEntry ::
  "datector \<Rightarrow> urlctor \<Rightarrow> jsval \<Rightarrow> world \<Rightarrow> (error + resultType \<times> jsval) \<times> world" where
  "processEntry D U article w =
     (case getArticle U (getp article ''url'') w of
        (Inl e, w') \<Rightarrow> (Inl e, w')
      | (Inr existing, w') \<Rightarrow>
          (Inr (if truthy existing
                then (case mergeArticleDataForImport D existing article of
                        Some merged \<Rightarrow> (Updated, merged)
                      | None \<Rightarrow> (Skipped, JNull))
                else if \<not> truthy (getp article ''isRead'') then (Skipped, JNull)
                else (Imported, JObj
                       [(''url'', getp article ''url''),
                        (''title'', jsor (getp article ''title'') (JStr [])),
                        (''publishedDate'', jsor (getp article ''publishedDate'') (JStr [])),
                        (''dateText'',
                           jsor (jsor (getp article ''dateText'') (getp article ''publishedDate''))
                             (JStr [])),
                        (''isRead'', JBool True),
                        (''readDate'', jsor (getp article ''readDate'') JNull)])), w'))"

text \<open>\<^verbatim>\<open>Promise.all\<close> over the mapped articles: every lookup is issued, in array order;
  the batch fails with the first failure.\<close>

fun processAll ::
  "datector \<Rightarrow> urlctor \<Rightarrow> jsval list \<Rightarrow> world \<Rightarrow> (error + (resultType \<times> jsval) list) \<times> world" where
  "processAll D U [] w = (Inr [], w)"
| "processAll D U (article # rest) w =
     (case processEntry D U article w of
        (r, w1) \<Rightarrow>
          (case processAll D U rest w1 of
             (rs, w2) \<Rightarrow>
               ((case r of
                   Inl e \<Rightarrow> Inl e
                 | Inr x \<Rightarrow> (case rs of Inl e \<Rightarrow> Inl e | Inr xs \<Rightarrow> Inr (x # xs))), w2)))"

record importResult =
  articlesToSave :: "jsval list"
  imported :: nat
  updated :: nat
  skipped :: nat

definition processImportBatch ::
  "datector \<Rightarrow> urlctor \<Rightarrow> jsval \<Rightarrow> world \<Rightarrow> (error + importResult) \<times> world" where
  "processImportBatch D U importData w =
     (if \<not> truthy importData \<or> \<not> typeofObject importData
      then (Inl (ImportError ''processImportBatch: importData must be an object''), w)
      else
        (case getp importData ''articles'' of
           JArr articles \<Rightarrow>
             (let validArticles =
                    filter (\<lambda>article. validateArticle article \<and> validateUrl (getp article ''url''))
                      articles
              in case processAll D U validArticles w of
                   (Inl e, w') \<Rightarrow> (Inl e, w')
                 | (Inr results, w') \<Rightarrow>
                     (Inr \<lparr>articlesToSave = map snd (filter (\<lambda>r. fst r \<noteq> Skipped) results),
                           imported = length (filter (\<lambda>r. fst r = Imported) results),
                           updated = length (filter (\<lambda>r. fst r = Updated) results),
                           skipped = length articles - length validArticles
                                     + length (filter (\<lambda>r. fst r = Skipped) results)\<rparr>, w'))
         | v \<Rightarrow> (Inl (ImportError ''processImportBatch: importData.articles must be an array''), w)))"

text \<open>\<^verbatim>\<open>importDataFromFile\<close>, from the parsed content of the file on: validation, the
  batch, and the save of its \<^verbatim>\<open>articlesToSave\<close>.  \<open>now\<close> is the reading of
  \<^verbatim>\<open>Date.now()\<close>.  The result is \<^verbatim>\<open>{imported, updated, skipped}\<close>.\<close>

definition importDataFromFile ::
  "datector \<Rightarrow> urlctor \<Rightarrow> int \<Rightarrow> jsval \<Rightarrow> world \<Rightarrow> (error + nat \<times> nat \<times> nat) \<times> world" where
  "importDataFromFile D U now importData w =
     (case validateImportData importData of
        Some msg \<Rightarrow> (Inl (ImportError msg), w)
      | None \<Rightarrow>
          (case processImportBatch D U importData w of
             (Inl e, w1) \<Rightarrow> (Inl e, w1)
           | (Inr res, w1) \<Rightarrow>
               if articlesToSave res \<noteq> []
               then (case saveArticles U now (articlesToSave res) None w1 of
                       (Inl e, w2) \<Rightarrow> (Inl e, w2)
                     | (Inr u, w2) \<Rightarrow> (Inr (imported res, updated res, skipped res), w2))
               else (Inr (imported res, updated res, skipped res), w1)))"

section \<open>The record stored for a url\<close>

text \<open>
  \<open>priorRecord U w url\<close> is the record that the store of \<open>w\<close> holds for \<open>url\<close>: what
  \<^verbatim>\<open>Storage.getArticle(url)\<close> resolves to when its storage call succeeds, \<^verbatim>\<open>null\<close> when
  there is none.
\<close>

fun priorRecord :: "urlctor \<Rightarrow> world \<Rightarrow> jsval \<Rightarrow> jsval" where
  "priorRecord U w (JStr url) =
     (if url = [] \<or> \<not> validateUrl (JStr url) then JNull
      else jsor (getp (JObj (items w))
                   (getStorageKey U (normalizeUrl U url defaultBaseUrl))) JNull)"
| "priorRecord U w v = JNull"

section \<open>The read-state invariant\<close>

text \<open>
  The invariant of the data model on a pair \<^verbatim>\<open>(isRead, readDate)\<close>: an unread article has
  no read date, a read article has a timestamp, which is a string and not the empty one.
  \<open>recordOk\<close> is the invariant on the two fields of a record.
\<close>

definition readStateOk :: "jsval \<Rightarrow> jsval \<Rightarrow> bool" where
  "readStateOk isRead readDate =
     ((isRead = JBool False \<and> readDate = JNull)
      \<or> (isRead = JBool True \<and> isString readDate \<and> truthy readDate))"

definition recordOk :: "jsval \<Rightarrow> bool" where
  "recordOk record = readStateOk (getp record ''isRead'') (getp record ''readDate'')"

text \<open>Every item of the store of \<open>w'\<close> is an item of the store of \<open>w\<close> or satisfies the
  invariant: what was written between the two states satisfies it.\<close>

definition writesOk :: "world \<Rightarrow> world \<Rightarrow> bool" where
  "writesOk w w' = list_all (\<lambda>kv. kv \<in> set (items w) \<or> recordOk (snd kv)) (items w')"

text \<open>
  The records a context holds satisfy the invariant: every value of the store, the page
  filter and the falsy values apart (every reader of the store takes a falsy value for no
  record), and every entry of the snapshot of the cache.  Likewise for a map of existing
  articles.
\<close>

definition heldOk :: "world \<Rightarrow> bool" where
  "heldOk w =
     (list_all (\<lambda>kv. fst kv = CONFIG_storage_filterKey \<or> \<not> truthy (snd kv) \<or> recordOk (snd kv))
        (items w)
      \<and> (case articlesCache w of
            None \<Rightarrow> True
          | Some cache \<Rightarrow> list_all (\<lambda>kv. recordOk (snd kv)) cache))"

definition mapOk :: "jsmap \<Rightarrow> bool" where
  "mapOk m = list_all (\<lambda>kv. recordOk (snd kv)) m"

text \<open>
  The read state an article supplies to \<^verbatim>\<open>saveArticle\<close> is consistent, given the record
  \<open>existing\<close> found for it: if the article has an own \<^verbatim>\<open>isRead\<close> and a \<^verbatim>\<open>readDate\<close> other
  than \<^verbatim>\<open>undefined\<close>, the two satisfy the invariant (a missing \<^verbatim>\<open>readDate\<close> is filled
  in by the code); if it has no own \<^verbatim>\<open>isRead\<close> and there is no existing record, it has
  no \<^verbatim>\<open>readDate\<close> either.
\<close>

definition suppliedOk :: "jsval \<Rightarrow> jsval \<Rightarrow> bool" where
  "suppliedOk existing article =
     ((ownKey article ''isRead'' \<and> getp article ''readDate'' \<noteq> JUndefined
         \<longrightarrow> readStateOk (jsor (getp article ''isRead'') (JBool False)) (getp article ''readDate''))
      \<and> (\<not> ownKey article ''isRead'' \<and> \<not> truthy existing
           \<longrightarrow> \<not> truthy (getp article ''readDate'')))"

text \<open>
  The read state an article supplies to \<^verbatim>\<open>saveArticles\<close>, which takes
  \<^verbatim>\<open>isRead || false\<close> and \<^verbatim>\<open>readDate || null\<close> of an article without a record, is
  consistent.  Nothing is asked of an article that the loop of \<^verbatim>\<open>saveArticles\<close> drops.
\<close>

definition savedOk :: "jsval \<Rightarrow> bool" where
  "savedOk article =
     (if \<not> truthy article \<or> \<not> truthy (getp article ''url'')
         \<or> \<not> validateUrl (getp article ''url'')
      then True
      else readStateOk (jsor (getp article ''isRead'') (JBool False))
             (jsor (getp article ''readDate'') JNull))"

text \<open>
  An entry of a backup that the import does not filter out and that is marked read carries
  a read date, a string that is not empty; and a backup all of whose entries do.
\<close>

definition entryDated :: "jsval \<Rightarrow> bool" where
  "entryDated entry =
     (if validateArticle entry \<and> validateUrl (getp entry ''url'') \<and> truthy (getp entry ''isRead'')
      then isString (getp entry ''readDate'') \<and> truthy (getp entry ''readDate'')
      else True)"

definition datedEntries :: "jsval \<Rightarrow> bool" where
  "datedEntries importData =
     (case getp importData ''articles'' of
        JArr entries \<Rightarrow> list_all entryDated entries
      | v \<Rightarrow> True)"

section \<open>The classes of the entries of a backup\<close>

text \<open>
  The class of an entry as the specification words it.  An entry is skipped when it is
  structurally invalid or has no usable url.  Otherwise, with a prior record, it is updated
  when the import merge accepts it and skipped when the merge rejects it; without a prior
  record, it is imported when it is accepted, that is marked read, and skipped when it is
  not.
\<close>

definition entryClass :: "datector \<Rightarrow> urlctor \<Rightarrow> world \<Rightarrow> jsval \<Rightarrow> resultType" where
  "entryClass D U w entry =
     (if \<not> validateArticle entry \<or> \<not> validateUrl (getp entry ''url'') then Skipped
      else if truthy (priorRecord U w (getp entry ''url''))
      then (if mergeArticleDataForImport D (priorRecord U w (getp entry ''url'')) entry = None
            then Skipped else Updated)
      else if truthy (getp entry ''isRead'') then Imported
      else Skipped)"

section \<open>Drafts that are already tracked\<close>

text \<open>
  \<open>draftUrl\<close> is the normalized url of a draft that the loop of \<^verbatim>\<open>syncArticles\<close> does not
  drop as invalid.  \<open>storeHolds w n\<close>: the store holds, under an article key, an article
  whose url is \<open>n\<close>.
\<close>

definition storeHolds :: "world \<Rightarrow> string \<Rightarrow> bool" where
  "storeHolds w n =
     list_ex (\<lambda>kv. length (fst kv) \<ge> length CONFIG_storage_prefix
                  \<and> take (length CONFIG_storage_prefix) (fst kv) = CONFIG_storage_prefix
                  \<and> truthy (snd kv) \<and> truthy (getp (snd kv) ''url'')
                  \<and> getp (snd kv) ''url'' = JStr n)
       (items w)"

definition draftUrl :: "urlctor \<Rightarrow> jsval \<Rightarrow> string option" where
  "draftUrl U d =
     (if truthy d \<and> validateUrl (getp d ''url'')
      then (case getp d ''url'' of JStr url \<Rightarrow> Some (normalizeUrl U url defaultBaseUrl) | v \<Rightarrow> None)
      else None)"

section \<open>Inputs on which normalization is stable\<close>

text \<open>
  Two conditions on an input \<open>u\<close>, stated on what the \<^verbatim>\<open>URL\<close> constructor does.

  \<open>acceptedStable\<close>: the constructor accepts \<open>u\<close>; it maps the href to itself; if the href
  ends with a slash, it maps the href without that slash to itself or back to the href;
  and the href does not end with two slashes, unless it is the base followed by two
  slashes.

  \<open>rejectedStable\<close>: the constructor rejects \<open>u\<close> and rejects the result of
  \<^verbatim>\<open>normalizeUrl\<close> on \<open>u\<close> as well; that result has no white space around it and no
  trailing slash left to strip; and the base starts with \<^verbatim>\<open>http://\<close> or \<^verbatim>\<open>https://\<close>.
\<close>

definition acceptedStable :: "urlctor \<Rightarrow> string \<Rightarrow> string \<Rightarrow> bool" where
  "acceptedStable U b u =
     (case U (trim u) b of
        None \<Rightarrow> False
      | Some href \<Rightarrow>
          U (trim href) b = Some href
          \<and> (endsWith href ''/''
               \<longrightarrow> U (trim (butlast href)) b = Some (butlast href)
                   \<or> U (trim (butlast href)) b = Some href)
          \<and> (endsWith href ''//'' \<longrightarrow> href = b @ ''//''))"

definition rejectedStable :: "urlctor \<Rightarrow> string \<Rightarrow> string \<Rightarrow> bool" where
  "rejectedStable U b u =
     (U (trim u) b = None
      \<and> U (trim (normalizeUrl U u b)) b = None
      \<and> trim (normalizeUrl U u b) = normalizeUrl U u b
      \<and> (endsWith (normalizeUrl U u b) ''/'' \<longrightarrow> normalizeUrl U u b = b @ ''/'')
      \<and> (startsWith b ''http://'' \<or> startsWith b ''https://''))"

section \<open>Sample data\<close>

text \<open>
  Concrete inputs for the evaluations below.

  \<open>sampleURL\<close> stands in for the \<^verbatim>\<open>URL\<close> constructor on a small fragment of its
  domain, with the base \<^verbatim>\<open>https://lethain.com\<close>:
  \<^item> the base itself is serialised with the root path, \<^verbatim>\<open>https://lethain.com/\<close>;
  \<^item> \<^verbatim>\<open>https://lethain.com/\<close> followed by lower-case letters, digits, hyphens and slashes
    is serialised unchanged (every slash opens a path segment, empty segments are kept);
  \<^item> a path of such characters that starts with one slash, not two, is resolved against
    the base: the base followed by the path;
  \<^item> \<^verbatim>\<open>http://\<close> or \<^verbatim>\<open>https://\<close> followed by nothing but slashes has an empty host, and the
    constructor throws;
  \<^item> \<^verbatim>\<open>http://\<close> or \<^verbatim>\<open>https://\<close> followed by a host with a space in it has a forbidden character
    in the host, and the constructor throws.
  On every other argument \<open>sampleURL\<close> answers \<open>None\<close> as well; there it says nothing about
  the constructor, and no evaluation below reaches it.
\<close>

definition pathChar :: "char \<Rightarrow> bool" where
  "pathChar c = (c \<in> set ''abcdefghijklmnopqrstuvwxyz0123456789-/'')"

definition sampleURL :: urlctor where
  "sampleURL s b =
     (if b = defaultBaseUrl \<and> s = defaultBaseUrl then Some (defaultBaseUrl @ ''/'')
      else if b = defaultBaseUrl \<and> startsWith s (defaultBaseUrl @ ''/'')
              \<and> list_all pathChar (drop (length defaultBaseUrl) s)
      then Some s
      else if b = defaultBaseUrl \<and> startsWith s ''/'' \<and> startsWith s ''//'' = False
              \<and> list_all pathChar s
      then Some (defaultBaseUrl @ s)
      else None)"

text \<open>\<open>sampleDate\<close> gives the time values of two timestamps; other values are left invalid.\<close>

definition sampleDate :: datector where
  "sampleDate v =
     (if v = JStr ''2024-01-01T00:00:00.000Z'' then Some 1704067200000
      else if v = JStr ''2024-06-01T00:00:00.000Z'' then Some 1717200000000
      else None)"

text \<open>A content-script context with nothing stored and no snapshot, and the same for the
  popup, which has no cache module.\<close>

definition emptyWorld :: world where
  "emptyWorld =
     \<lparr>items = [], lastErrors = [], storageCalls = 0, cacheLoaded = True,
      articlesCache = None, cacheTimestamp = 0\<rparr>"

definition popupWorld :: world where
  "popupWorld = emptyWorld\<lparr>cacheLoaded := False\<rparr>"

definition readRecord :: jsval where
  "readRecord = JObj
     [(''url'', JStr ''https://lethain.com/a''),
      (''title'', JStr ''A''),
      (''publishedDate'', JStr ''2023-12-24''),
      (''dateText'', JStr ''December 24, 2023''),
      (''isRead'', JBool True),
      (''readDate'', JStr ''2024-01-01T00:00:00.000Z'')]"

definition sampleDraft :: jsval where
  "sampleDraft = JObj
     [(''url'', JStr ''https://lethain.com/a/''),
      (''title'', JStr ''New Title''),
      (''publishedDate'', JStr []),
      (''dateText'', JStr [])]"

text \<open>A context that holds a snapshot taken at time 1000 while the store has one record.\<close>

definition snapshotWorld :: world where
  "snapshotWorld =
     \<lparr>items = [(''article_https://lethain.com/a'', readRecord)], lastErrors = [],
      storageCalls = 0, cacheLoaded = True,
      articlesCache = Some [], cacheTimestamp = 1000\<rparr>"

text \<open>A context without a snapshot in which the next storage call fails.\<close>

definition failingWorld :: world where
  "failingWorld = emptyWorld\<lparr>lastErrors := [Some ''QUOTA_BYTES quota exceeded'']\<rparr>"

text \<open>The popup's context with one read record stored, and a backup of five entries:
  a later read of the stored article, a read of a new article, an unread entry, and two
  entries that are not articles.\<close>

definition popupStored :: world where
  "popupStored = popupWorld\<lparr>items := [(''article_https://lethain.com/a'', readRecord)]\<rparr>"

definition sampleBackup :: jsval where
  "sampleBackup = JObj
     [(''version'', JStr ''1.0.0''),
      (''articles'', JArr
         [JObj [(''url'', JStr ''https://lethain.com/a''), (''isRead'', JBool True),
                (''readDate'', JStr ''2024-06-01T00:00:00.000Z'')],
          JObj [(''url'', JStr ''https://lethain.com/b''), (''title'', JStr ''B''),
                (''isRead'', JBool True), (''readDate'', JStr ''2024-01-01T00:00:00.000Z'')],
          JObj [(''url'', JStr ''https://lethain.com/c''), (''isRead'', JBool False),
                (''readDate'', JNull)],
          JNull,
          JObj [(''title'', JStr ''no url'')]])]"

text \<open>An article that passes \<^verbatim>\<open>validateArticleStructure\<close> and says it is unread
  with a read date; one that is read with a read date; and a backup whose only entry is
  marked read and has no read date.\<close>

definition inconsistentArticle :: jsval where
  "inconsistentArticle = JObj
     [(''url'', JStr ''https://lethain.com/a''),
      (''isRead'', JBool False),
      (''readDate'', JStr ''2024-01-01T00:00:00.000Z'')]"

definition consistentArticle :: jsval where
  "consistentArticle = JObj
     [(''url'', JStr ''https://lethain.com/a''),
      (''isRead'', JBool True),
      (''readDate'', JStr ''2024-06-01T00:00:00.000Z'')]"

definition undatedBackup :: jsval where
  "undatedBackup = JObj
     [(''articles'', JArr
         [JObj [(''url'', JStr ''https://lethain.com/b''), (''title'', JStr ''B''),
                (''isRead'', JBool True)]])]"

text \<open>A record that is read and has no read date, one that is read and has the empty
  string as read date, and a draft that has a read date and no \<^verbatim>\<open>isRead\<close>.\<close>

definition undatedRecord :: jsval where
  "undatedRecord = JObj
     [(''url'', JStr ''https://lethain.com/a''),
      (''isRead'', JBool True),
      (''readDate'', JNull)]"

definition emptyDateRecord :: jsval where
  "emptyDateRecord = JObj
     [(''url'', JStr ''https://lethain.com/a''),
      (''title'', JStr ''A''),
      (''isRead'', JBool True),
      (''readDate'', JStr [])]"

definition datedDraft :: jsval where
  "datedDraft = JObj
     [(''url'', JStr ''https://lethain.com/a''),
      (''readDate'', JStr ''2024-01-01T00:00:00.000Z'')]"

text \<open>The popup's context with the record stored that is read and has no read date.\<close>

definition undatedStored :: world where
  "undatedStored = popupWorld\<lparr>items := [(''article_https://lethain.com/a'', undatedRecord)]\<rparr>"

text \<open>A content-script context whose store holds the read record, without a snapshot,
  in which the next storage call fails.\<close>

definition fetchFailsWorld :: world where
  "fetchFailsWorld =
     \<lparr>items = [(''article_https://lethain.com/a'', readRecord)],
      lastErrors = [Some ''QUOTA_BYTES quota exceeded''],
      storageCalls = 0, cacheLoaded = True,
      articlesCache = None, cacheTimestamp = 0\<rparr>"

text \<open>Two backups of the same article, read at different times, and the store that
  holds the article with a given read date.\<close>

definition backupEarlier :: jsval where
  "backupEarlier = JObj
     [(''articles'', JArr
         [JObj [(''url'', JStr ''https://lethain.com/a''), (''title'', JStr ''A''),
                (''isRead'', JBool True), (''readDate'', JStr ''2024-01-01T00:00:00.000Z'')]])]"

definition backupLater :: jsval where
  "backupLater = JObj
     [(''articles'', JArr
         [JObj [(''url'', JStr ''https://lethain.com/a''), (''title'', JStr ''A''),
                (''isRead'', JBool True), (''readDate'', JStr ''2024-06-01T00:00:00.000Z'')]])]"

definition storedWith :: "string \<Rightarrow> jsobj" where
  "storedWith readDate =
     [(''article_https://lethain.com/a'',
       JObj [(''url'', JStr ''https://lethain.com/a''), (''title'', JStr ''A''),
             (''publishedDate'', JStr []), (''dateText'', JStr []),
             (''isRead'', JBool True), (''readDate'', JStr readDate)])]"

section \<open>Storage calls\<close>

lemma storageGet_calls: "storageCalls (snd (storageGet keys w)) = Suc (storageCalls w)"
  by (auto simp: storageGet_def nextCall_def split: list.splits prod.splits option.splits)

lemma getAllArticles_calls: "storageCalls (snd (getAllArticles w)) = Suc (storageCalls w)"
  using storageGet_calls[of None w]
  by (auto simp: getAllArticles_def split: prod.splits sum.splits)

lemma nextCall_healthy:
  "storageHealthy w \<Longrightarrow> \<exists>w'. nextCall w = (None, w') \<and> storageHealthy w' \<and> items w' = items w"
  by (auto simp: nextCall_def storageHealthy_def split: list.splits)

lemma storageGet_healthy:
  "storageHealthy w \<Longrightarrow> \<exists>r w'. storageGet keys w = (Inr r, w') \<and> storageHealthy w'"
  using nextCall_healthy[of w] by (auto simp: storageGet_def)

lemma nextCall_frame:
  "items (snd (nextCall w)) = items w"
  "articlesCache (snd (nextCall w)) = articlesCache w"
  "cacheLoaded (snd (nextCall w)) = cacheLoaded w"
  by (simp_all add: nextCall_def split: list.splits)

lemma storageGet_frame:
  assumes "storageGet keys w = (r, w')"
  shows "items w' = items w" "articlesCache w' = articlesCache w" "cacheLoaded w' = cacheLoaded w"
  using assms nextCall_frame[of w]
  by (auto simp: storageGet_def split: prod.splits option.splits)

lemma getArticle_frame:
  assumes g: "getArticle U x w = (r, w')"
  shows "items w' = items w" "articlesCache w' = articlesCache w" "cacheLoaded w' = cacheLoaded w"
proof -
  have "items w' = items w \<and> articlesCache w' = articlesCache w \<and> cacheLoaded w' = cacheLoaded w"
  proof (cases x)
    case (JStr url)
    show ?thesis
    proof (cases "url = [] \<or> \<not> validateUrl (JStr url)")
      case True
      then show ?thesis using g JStr by auto
    next
      case False
      then show ?thesis
        using g JStr
        by (auto simp: Let_def split: prod.splits sum.splits dest: storageGet_frame)
    qed
  qed (use g in auto)
  then show "items w' = items w" "articlesCache w' = articlesCache w"
    "cacheLoaded w' = cacheLoaded w"
    by simp_all
qed

lemma getAllArticles_items: "getAllArticles w = (r, w') \<Longrightarrow> items w' = items w"
  using storageGet_frame(1)[of None w]
  by (auto simp: getAllArticles_def split: prod.splits sum.splits)

lemma getArticlesCache_items: "getArticlesCache now w = (r, w') \<Longrightarrow> items w' = items w"
  using storageGet_frame(1)[of None w]
  by (auto simp: getArticlesCache_def getAllArticles_def Let_def split: if_splits prod.splits sum.splits)

lemma getExistingArticlesMap_items:
  assumes "getExistingArticlesMap now w = (r, w')"
  shows "items w' = items w"
proof -
  obtain c wc where c: "getArticlesCache now w = (c, wc)"
    by (cases "getArticlesCache now w") auto
  have ic: "items wc = items w" using getArticlesCache_items[OF c] .
  obtain a wa where a: "getAllArticles w = (a, wa)"
    by (cases "getAllArticles w") auto
  have ia: "items wa = items w" using getAllArticles_items[OF a] .
  obtain a2 wa2 where a2: "getAllArticles wc = (a2, wa2)"
    by (cases "getAllArticles wc") auto
  have ia2: "items wa2 = items w" using getAllArticles_items[OF a2] ic by simp
  show ?thesis
    using assms c a a2 ic ia ia2
    by (auto simp: getExistingArticlesMap_def Let_def split: if_splits prod.splits sum.splits option.splits)
qed

lemma map_of_filter_key: "map_of (filter (\<lambda>kv. fst kv = k) al) k = map_of al k"
  by (induction al) auto

lemma getArticle_prior:
  assumes "getArticle U x w = (Inr existing, w')"
  shows "existing = priorRecord U w x"
proof (cases x)
  case (JStr url)
  show ?thesis
  proof (cases "url = [] \<or> \<not> validateUrl (JStr url)")
    case True
    then show ?thesis using assms JStr by auto
  next
    case False
    have "getp (JObj (filter (\<lambda>kv. fst kv \<in> set [k]) (items w))) k = getp (JObj (items w)) k" for k
      by (simp add: map_of_filter_key)
    then show ?thesis
      using assms JStr False
      by (auto simp: Let_def storageGet_def split: prod.splits sum.splits option.splits)
  qed
qed (use assms in auto)

lemma getArticle_healthy:
  assumes h: "storageHealthy w"
  shows "\<exists>w'. getArticle U x w = (Inr (priorRecord U w x), w') \<and> storageHealthy w'
               \<and> items w' = items w"
proof -
  have "\<exists>v w'. getArticle U x w = (Inr v, w') \<and> storageHealthy w' \<and> items w' = items w"
  proof (cases x)
    case (JStr url)
    show ?thesis
    proof (cases "url = [] \<or> \<not> validateUrl (JStr url)")
      case True
      then show ?thesis using h JStr by auto
    next
      case False
      obtain w' where "nextCall w = (None, w')" "storageHealthy w'" "items w' = items w"
        using nextCall_healthy[OF h] by blast
      then show ?thesis using False JStr by (auto simp: Let_def storageGet_def)
    qed
  qed (use h in auto)
  then show ?thesis using getArticle_prior by blast
qed

lemma storageSet_value:
  assumes h: "storageHealthy w"
  shows "\<exists>w'. storageSet [(k, v)] w = (Inr (), w')
          \<and> storageHealthy w' \<and> items w' = AList.update k v (items w)"
proof -
  obtain w' where c: "nextCall w = (None, w')" and h': "storageHealthy w'" and i: "items w' = items w"
    using nextCall_healthy[OF h] by blast
  have "storageHealthy (w'\<lparr>items := AList.update k v (items w)\<rparr>)"
    using h' by (simp add: storageHealthy_def)
  then show ?thesis using c by (simp add: storageSet_def)
qed

lemma set_update_subset: "set (AList.update k v al) \<subseteq> insert (k, v) (set al)"
  by (induction al) auto

lemma storageSet_items:
  assumes "storageSet data w = (r, w')"
  shows "set (items w') \<subseteq> set (items w) \<union> set data"
proof -
  have f: "set (fold (\<lambda>kv. AList.update (fst kv) (snd kv)) xs al) \<subseteq> set al \<union> set xs" for xs al
  proof (induction xs arbitrary: al)
    case Nil
    then show ?case by simp
  next
    case (Cons x xs)
    have "set (fold (\<lambda>kv. AList.update (fst kv) (snd kv)) xs (AList.update (fst x) (snd x) al))
            \<subseteq> set (AList.update (fst x) (snd x) al) \<union> set xs"
      using Cons.IH .
    moreover have "set (AList.update (fst x) (snd x) al) \<subseteq> insert x (set al)"
      using set_update_subset[of "fst x" "snd x" al] by simp
    ultimately show ?case by auto
  qed
  show ?thesis
    using assms nextCall_frame(1)[of w] f[of data "items w"]
    by (auto simp: storageSet_def split: prod.splits option.splits)
qed

lemma getArticle_value:
  assumes h: "storageHealthy w" and v: "validateUrl (JStr x)"
  shows "\<exists>w'. getArticle U (JStr x) w =
            (Inr (jsor (getp (JObj (items w))
                          (getStorageKey U (normalizeUrl U x defaultBaseUrl))) JNull), w')
          \<and> storageHealthy w' \<and> items w' = items w"
  using getArticle_healthy[OF h, of U "JStr x"] v by simp

section \<open>Evaluating the sample URLs\<close>

lemmas url_eval =
  normalizeUrl_def sampleURL_def defaultBaseUrl_def trim_def isWhiteSpace_def
  startsWith_def pathChar_def stripSlash_def endsWith_def

lemma normalize_a:
  "normalizeUrl sampleURL ''https://lethain.com/a'' defaultBaseUrl = ''https://lethain.com/a''"
  by (simp add: url_eval)

lemma normalize_b:
  "normalizeUrl sampleURL ''https://lethain.com/b'' defaultBaseUrl = ''https://lethain.com/b''"
  by (simp add: url_eval)

lemma normalize_c:
  "normalizeUrl sampleURL ''https://lethain.com/c'' defaultBaseUrl = ''https://lethain.com/c''"
  by (simp add: url_eval)

lemma normalize_a_slash:
  "normalizeUrl sampleURL ''https://lethain.com/a/'' defaultBaseUrl = ''https://lethain.com/a''"
  by (simp add: url_eval)

section \<open>The merge for sync\<close>

lemma getp_bool_truthy: "getp v k = JBool True \<Longrightarrow> truthy v"
  by (cases v) auto

lemma normalizeUrlV_returns:
  "(\<exists>n. normalizeUrlV U v = Inr n) \<longleftrightarrow> isString v \<or> \<not> truthy v"
  by (cases v) auto

text \<open>
  Claim C4 (read-state monotonicity under sync), as the code has it.  For every existing
  record with \<^verbatim>\<open>isRead = true\<close> and every draft, the record that
  \<^verbatim>\<open>mergeArticleState(existing, draft)\<close> returns has \<^verbatim>\<open>isRead = true\<close>, and its
  readDate is the readDate of the existing record when that is truthy and \<^verbatim>\<open>null\<close>
  otherwise: the merge takes \<^verbatim>\<open>existing.readDate || null\<close>, so an empty or missing
  readDate comes out as \<^verbatim>\<open>null\<close>.  The sync merge never turns a read article unread.
  The call returns a record exactly when the draft is neither \<^verbatim>\<open>null\<close> nor
  \<^verbatim>\<open>undefined\<close>, whose properties cannot be read, and the existing record has a url, or
  the url of the draft is a string or is falsy (the call throws when it has to normalize a
  url that is neither).
\<close>

theorem mergeArticleState_keeps_read:
  assumes "getp existing ''isRead'' = JBool True"
  shows "(\<forall>r. mergeArticleState U existing draft = Inr r
            \<longrightarrow> getp r ''isRead'' = JBool True
                \<and> getp r ''readDate'' =
                    (if truthy (getp existing ''readDate'') then getp existing ''readDate''
                     else JNull))
       \<and> ((\<exists>r. mergeArticleState U existing draft = Inr r)
            \<longleftrightarrow> draft \<noteq> JNull \<and> draft \<noteq> JUndefined
                \<and> (truthy (getp existing ''url'') \<or> isString (getp draft ''url'')
                     \<or> \<not> truthy (getp draft ''url'')))"
proof -
  have t: "truthy existing" using getp_bool_truthy[OF assms] .
  have a: "getp r ''isRead'' = JBool True
                \<and> getp r ''readDate'' =
                    (if truthy (getp existing ''readDate'') then getp existing ''readDate''
                     else JNull)"
    if "mergeArticleState U existing draft = Inr r" for r
  proof -
    have "getp r ''isRead'' = jsor (getp existing ''isRead'') (JBool False)
          \<and> getp r ''readDate'' = jsor (getp existing ''readDate'') JNull"
      using that t by (auto simp: mergeArticleState_def split: if_splits sum.splits)
    then show ?thesis using assms by (simp add: jsor_def)
  qed
  have b: "(\<exists>r. mergeArticleState U existing draft = Inr r)
            \<longleftrightarrow> draft \<noteq> JNull \<and> draft \<noteq> JUndefined
                \<and> (truthy (getp existing ''url'') \<or> isString (getp draft ''url'')
                     \<or> \<not> truthy (getp draft ''url''))"
  proof (cases "draft = JNull \<or> draft = JUndefined")
    case True
    then show ?thesis by (auto simp: mergeArticleState_def)
  next
    case d: False
    show ?thesis
    proof (cases "truthy (getp existing ''url'')")
      case True
      then show ?thesis using d t by (simp add: mergeArticleState_def)
    next
      case False
      have "(\<exists>r. mergeArticleState U existing draft = Inr r)
              \<longleftrightarrow> (\<exists>n. normalizeUrlV U (getp draft ''url'') = Inr n)"
        using d t False
        by (cases "normalizeUrlV U (getp draft ''url'')") (auto simp: mergeArticleState_def)
      then show ?thesis using d False normalizeUrlV_returns[of U "getp draft ''url''"] by simp
    qed
  qed
  show ?thesis using a b by blast
qed

theorem mergeArticleState_keeps_read_witness:
  "getp readRecord ''isRead'' = JBool True
   \<and> sampleDraft \<noteq> JNull \<and> sampleDraft \<noteq> JUndefined
   \<and> truthy (getp readRecord ''url'')
   \<and> truthy (getp readRecord ''readDate'')
   \<and> (\<exists>r. mergeArticleState sampleURL readRecord sampleDraft = Inr r
          \<and> getp r ''isRead'' = JBool True
          \<and> getp r ''readDate'' = JStr ''2024-01-01T00:00:00.000Z'')
   \<and> (\<forall>r. mergeArticleState sampleURL readRecord JNull \<noteq> Inr r)"
proof -
  have h1: "getp readRecord ''isRead'' = JBool True"
    by (simp add: readRecord_def)
  have h2: "truthy (getp readRecord ''url'')"
    by (simp add: readRecord_def)
  have h3: "truthy (getp readRecord ''readDate'')"
    by (simp add: readRecord_def)
  have h4: "sampleDraft \<noteq> JNull \<and> sampleDraft \<noteq> JUndefined"
    by (simp add: sampleDraft_def)
  have d: "getp readRecord ''readDate'' = JStr ''2024-01-01T00:00:00.000Z''"
    by (simp add: readRecord_def)
  note t = mergeArticleState_keeps_read[where U = sampleURL and draft = sampleDraft, OF h1]
  obtain r where r: "mergeArticleState sampleURL readRecord sampleDraft = Inr r"
    using t h4 h2 by blast
  have "getp r ''isRead'' = JBool True \<and> getp r ''readDate'' = JStr ''2024-01-01T00:00:00.000Z''"
    using t r h3 d by simp
  moreover have "\<forall>r. mergeArticleState sampleURL readRecord JNull \<noteq> Inr r"
    using mergeArticleState_keeps_read[where U = sampleURL and draft = JNull, OF h1] by blast
  ultimately show ?thesis using h1 h2 h3 h4 r by blast
qed

text \<open>
  Against claim C4 as stated.  \<^verbatim>\<open>saveArticle\<close> stores a read state that an article
  supplies explicitly as it is, so the store can hold a record with \<^verbatim>\<open>isRead = true\<close>
  and the empty string as readDate.  Merged with a draft, that record comes out with the
  readDate \<^verbatim>\<open>null\<close>, which is not the readDate of the existing record.
\<close>

theorem mergeArticleState_keeps_read_counterexample:
  "validateArticleStructure emptyDateRecord
   \<and> fst (saveArticle sampleURL ''2024-07-01T00:00:00.000Z'' emptyDateRecord emptyWorld)
       = Inr (JObj [(''url'', JStr ''https://lethain.com/a''), (''title'', JStr ''A''),
                    (''publishedDate'', JStr []), (''dateText'', JStr []),
                    (''isRead'', JBool True), (''readDate'', JStr [])])
   \<and> getp emptyDateRecord ''isRead'' = JBool True
   \<and> getp emptyDateRecord ''readDate'' = JStr []
   \<and> mergeArticleState sampleURL emptyDateRecord sampleDraft
       = Inr (JObj [(''url'', JStr ''https://lethain.com/a''), (''title'', JStr ''New Title''),
                    (''publishedDate'', JStr []), (''dateText'', JStr []),
                    (''isRead'', JBool True), (''readDate'', JNull)])"
proof -
  have v: "validateArticleStructure emptyDateRecord"
    by (simp add: validateArticleStructure_def emptyDateRecord_def)
  have s: "fst (saveArticle sampleURL ''2024-07-01T00:00:00.000Z'' emptyDateRecord emptyWorld)
       = Inr (JObj [(''url'', JStr ''https://lethain.com/a''), (''title'', JStr ''A''),
                    (''publishedDate'', JStr []), (''dateText'', JStr []),
                    (''isRead'', JBool True), (''readDate'', JStr [])])"
    by (simp add: saveArticle_def validateArticleStructure_def emptyDateRecord_def emptyWorld_def getStorageKey_def
        normalize_a storageGet_def storageSet_def nextCall_def CONFIG_storage_prefix_def
        determineReadStatus_def jsor_def jsand_def trim_def isWhiteSpace_def Let_def)
  have m: "mergeArticleState sampleURL emptyDateRecord sampleDraft
       = Inr (JObj [(''url'', JStr ''https://lethain.com/a''), (''title'', JStr ''New Title''),
                    (''publishedDate'', JStr []), (''dateText'', JStr []),
                    (''isRead'', JBool True), (''readDate'', JNull)])"
    by (simp add: mergeArticleState_def emptyDateRecord_def sampleDraft_def jsor_def)
  show ?thesis using v s m by (simp add: emptyDateRecord_def)
qed


section \<open>The cache\<close>

text \<open>
  Claim C7 (cache TTL boundary).  The ttl is 30000 ms.  While a snapshot is held, a get at
  age ttl - 1 returns that snapshot and leaves the whole state as it was, the count of
  storage calls included; a get at age ttl + 1 makes one storage call, and returns and
  holds the snapshot rebuilt from what the store delivered, stamped with the time of the
  call (or passes on the failure of the fetch).
\<close>

theorem cache_ttl_boundary:
  assumes "articlesCache w = Some snapshot"
  shows "CONFIG_cache_ttl = 30000
       \<and> (now - cacheTimestamp w = CONFIG_cache_ttl - 1
            \<longrightarrow> getArticlesCache now w = (Inr snapshot, w))
       \<and> (now - cacheTimestamp w = CONFIG_cache_ttl + 1
            \<longrightarrow> storageCalls (snd (getArticlesCache now w)) = Suc (storageCalls w)
              \<and> (case getAllArticles w of
                    (Inr articles, w') \<Rightarrow>
                      getArticlesCache now w =
                        (Inr (buildCache articles []),
                         w'\<lparr>articlesCache := Some (buildCache articles []), cacheTimestamp := now\<rparr>)
                  | (Inl e, w') \<Rightarrow> fst (getArticlesCache now w) = Inl e))"
  using assms getAllArticles_calls[of w]
  by (auto simp: getArticlesCache_def CONFIG_cache_ttl_def Let_def split: prod.splits sum.splits)

lemma getAllArticles_snapshotWorld:
  "getAllArticles snapshotWorld = (Inr [readRecord], snapshotWorld\<lparr>storageCalls := 1\<rparr>)"
  by (simp add: getAllArticles_def storageGet_def nextCall_def snapshotWorld_def
      CONFIG_storage_prefix_def)

lemma buildCache_readRecord:
  "buildCache [readRecord] [] = [(''https://lethain.com/a'', readRecord)]"
  by (simp add: readRecord_def)

theorem cache_ttl_boundary_witness:
  "articlesCache snapshotWorld = Some []
   \<and> cacheTimestamp snapshotWorld = 1000
   \<and> getArticlesCache 30999 snapshotWorld = (Inr [], snapshotWorld)
   \<and> storageCalls (snd (getArticlesCache 31001 snapshotWorld)) = 1
   \<and> getArticlesCache 31001 snapshotWorld =
       (Inr [(''https://lethain.com/a'', readRecord)],
        snapshotWorld\<lparr>storageCalls := 1,
          articlesCache := Some [(''https://lethain.com/a'', readRecord)],
          cacheTimestamp := 31001\<rparr>)"
proof -
  have c: "articlesCache snapshotWorld = Some []"
    by (simp add: snapshotWorld_def)
  have t: "cacheTimestamp snapshotWorld = 1000" and n: "storageCalls snapshotWorld = 0"
    by (simp_all add: snapshotWorld_def)
  note b = cache_ttl_boundary[OF c]
  have young: "getArticlesCache 30999 snapshotWorld = (Inr [], snapshotWorld)"
    using b[of 30999] t by simp
  have old: "storageCalls (snd (getArticlesCache 31001 snapshotWorld)) = 1
     \<and> getArticlesCache 31001 snapshotWorld =
       (Inr [(''https://lethain.com/a'', readRecord)],
        snapshotWorld\<lparr>storageCalls := 1,
          articlesCache := Some [(''https://lethain.com/a'', readRecord)],
          cacheTimestamp := 31001\<rparr>)"
    using b[of 31001] t n
    by (simp add: getAllArticles_snapshotWorld buildCache_readRecord del: buildCache.simps)
  show ?thesis using c t young old by simp
qed

text \<open>
  Claim C3 (cache failure recovery), as the code has it.  When the fetch inside
  \<^verbatim>\<open>getArticlesCache\<close> fails, the failure is passed on to the caller and the cache is
  reset to an empty mapping stamped with the time of the call.  That mapping counts as a
  snapshot: a following get within the ttl returns it and makes no storage call; only a
  get later than the ttl fetches again.
\<close>

theorem cache_failure_recovery:
  assumes due: "articlesCache w = None \<or> now - cacheTimestamp w > CONFIG_cache_ttl"
      and fails: "fst (getAllArticles w) = Inl e"
      and w1: "w1 = snd (getArticlesCache now w)"
  shows "fst (getArticlesCache now w) = Inl e
       \<and> articlesCache w1 = Some []
       \<and> cacheTimestamp w1 = now
       \<and> (now' - now \<le> CONFIG_cache_ttl \<longrightarrow> getArticlesCache now' w1 = (Inr [], w1))
       \<and> (now' - now > CONFIG_cache_ttl
            \<longrightarrow> storageCalls (snd (getArticlesCache now' w1)) = Suc (storageCalls w1))"
proof -
  obtain w' where g: "getAllArticles w = (Inl e, w')"
    using fails by (cases "getAllArticles w") auto
  have r: "getArticlesCache now w = (Inl e, w'\<lparr>articlesCache := Some [], cacheTimestamp := now\<rparr>)"
    using due g by (auto simp: getArticlesCache_def)
  have c: "articlesCache w1 = Some []" and t: "cacheTimestamp w1 = now"
    using r w1 by simp_all
  have served: "now' - now \<le> CONFIG_cache_ttl \<Longrightarrow> getArticlesCache now' w1 = (Inr [], w1)"
    using c t by (simp add: getArticlesCache_def)
  have refetch: "now' - now > CONFIG_cache_ttl
      \<Longrightarrow> storageCalls (snd (getArticlesCache now' w1)) = Suc (storageCalls w1)"
    using c t getAllArticles_calls[of w1]
    by (auto simp: getArticlesCache_def Let_def split: prod.splits sum.splits)
  show ?thesis using r c t served refetch by simp
qed

lemma getAllArticles_failingWorld:
  "getAllArticles failingWorld =
     (Inl (StorageError ''QUOTA_BYTES quota exceeded''),
      emptyWorld\<lparr>storageCalls := 1\<rparr>)"
  by (simp add: getAllArticles_def storageGet_def nextCall_def failingWorld_def emptyWorld_def)

lemma getArticlesCache_failingWorld:
  "getArticlesCache 1000 failingWorld =
     (Inl (StorageError ''QUOTA_BYTES quota exceeded''),
      emptyWorld\<lparr>storageCalls := 1, articlesCache := Some [], cacheTimestamp := 1000\<rparr>)"
  by (simp add: getArticlesCache_def getAllArticles_failingWorld)
     (simp add: failingWorld_def emptyWorld_def)

theorem cache_failure_recovery_witness:
  "articlesCache failingWorld = None
   \<and> fst (getAllArticles failingWorld) = Inl (StorageError ''QUOTA_BYTES quota exceeded'')
   \<and> fst (getArticlesCache 1000 failingWorld) = Inl (StorageError ''QUOTA_BYTES quota exceeded'')
   \<and> articlesCache (snd (getArticlesCache 1000 failingWorld)) = Some []
   \<and> cacheTimestamp (snd (getArticlesCache 1000 failingWorld)) = 1000
   \<and> getArticlesCache 31000 (snd (getArticlesCache 1000 failingWorld)) =
       (Inr [], snd (getArticlesCache 1000 failingWorld))
   \<and> storageCalls (snd (getArticlesCache 31001 (snd (getArticlesCache 1000 failingWorld)))) = 2"
proof -
  have due: "articlesCache failingWorld = None"
    by (simp add: failingWorld_def emptyWorld_def)
  have fails: "fst (getAllArticles failingWorld) = Inl (StorageError ''QUOTA_BYTES quota exceeded'')"
    by (simp add: getAllArticles_failingWorld)
  have n: "storageCalls (snd (getArticlesCache 1000 failingWorld)) = 1"
    by (simp add: getArticlesCache_failingWorld)
  note r = cache_failure_recovery[OF disjI1[OF due] fails refl, of 1000]
  show ?thesis
    using due fails r[of 31000] r[of 31001] n by (simp add: CONFIG_cache_ttl_def)
qed

text \<open>
  Against claim C3 as stated: after a failed fetch at time 1000, the get at time 1001 does
  not fetch.  It answers with the empty mapping left by the failure, and the count of
  storage calls stays where the failed call left it.
\<close>

theorem cache_failure_recovery_counterexample:
  "fst (getArticlesCache 1000 failingWorld) = Inl (StorageError ''QUOTA_BYTES quota exceeded'')
   \<and> fst (getArticlesCache 1001 (snd (getArticlesCache 1000 failingWorld))) = Inr []
   \<and> storageCalls (snd (getArticlesCache 1001 (snd (getArticlesCache 1000 failingWorld))))
       = storageCalls (snd (getArticlesCache 1000 failingWorld))"
  by (simp add: getArticlesCache_failingWorld)
     (simp add: getArticlesCache_def emptyWorld_def CONFIG_cache_ttl_def)

text \<open>
  Claim C10 (a patch before the first snapshot is a no-op).  While no snapshot is held,
  \<^verbatim>\<open>updateCacheArticle(url, record)\<close> leaves the state as it is, whatever the url and the
  record, and a point lookup after it still answers \<^verbatim>\<open>null\<close>.
\<close>

theorem updateCacheArticle_without_snapshot:
  assumes "articlesCache w = None"
  shows "updateCacheArticle U url record w = w
       \<and> getArticleFromCache U url (updateCacheArticle U url record w) = JNull"
  using assms by (simp add: updateCacheArticle_def getArticleFromCache_def)

theorem updateCacheArticle_without_snapshot_witness:
  "articlesCache emptyWorld = None
   \<and> updateCacheArticle sampleURL ''https://lethain.com/a'' readRecord emptyWorld = emptyWorld
   \<and> getArticleFromCache sampleURL ''https://lethain.com/a''
       (updateCacheArticle sampleURL ''https://lethain.com/a'' readRecord emptyWorld) = JNull"
proof -
  have h: "articlesCache emptyWorld = None"
    by (simp add: emptyWorld_def)
  from updateCacheArticle_without_snapshot[OF h, of sampleURL "''https://lethain.com/a''" readRecord]
  show ?thesis using h by blast
qed

section \<open>The import batch\<close>

lemma processEntry_class:
  assumes p: "processEntry D U a w1 = (Inr x, w2)"
      and i: "items w1 = items w"
      and v: "validateArticle a \<and> validateUrl (getp a ''url'')"
  shows "fst x = entryClass D U w a \<and> items w2 = items w"
proof -
  obtain existing where g: "getArticle U (getp a ''url'') w1 = (Inr existing, w2)"
    using p by (auto simp: processEntry_def split: prod.splits sum.splits)
  have e: "existing = priorRecord U w (getp a ''url'')"
    using getArticle_prior[OF g] i by (cases "getp a ''url''") auto
  have "items w2 = items w" using getArticle_frame(1)[OF g] i by simp
  moreover have "fst x = entryClass D U w a"
    using p g v e by (auto simp: processEntry_def entryClass_def split: option.splits)
  ultimately show ?thesis by simp
qed

lemma processEntry_returns:
  "storageHealthy w \<Longrightarrow> \<exists>x w'. processEntry D U a w = (Inr x, w') \<and> storageHealthy w'"
  using getArticle_healthy[of w U "getp a ''url''"]
  by (auto simp: processEntry_def)

lemma processAll_returns:
  "storageHealthy w \<Longrightarrow> \<exists>rs w'. processAll D U xs w = (Inr rs, w') \<and> storageHealthy w'"
proof (induction xs arbitrary: w)
  case Nil
  then show ?case by simp
next
  case (Cons a xs)
  obtain x w1 where e: "processEntry D U a w = (Inr x, w1)" and h1: "storageHealthy w1"
    using processEntry_returns[OF Cons.prems] by blast
  obtain rs w2 where r: "processAll D U xs w1 = (Inr rs, w2)" and h2: "storageHealthy w2"
    using Cons.IH[OF h1] by blast
  show ?case using e r h2 by simp
qed

lemma processAll_classes:
  assumes "processAll D U xs w1 = (Inr rs, w2)"
      and "items w1 = items w"
      and "\<forall>a \<in> set xs. validateArticle a \<and> validateUrl (getp a ''url'')"
  shows "map fst rs = map (entryClass D U w) xs \<and> items w2 = items w"
  using assms
proof (induction xs arbitrary: w1 rs w2)
  case Nil
  then show ?case by simp
next
  case (Cons a xs)
  obtain r wa where e: "processEntry D U a w1 = (r, wa)"
    by (cases "processEntry D U a w1") auto
  obtain rest wb where p: "processAll D U xs wa = (rest, wb)"
    by (cases "processAll D U xs wa") auto
  obtain x xs' where r: "r = Inr x" and rest: "rest = Inr xs'" and rs: "rs = x # xs'"
    and w2: "w2 = wb"
    using Cons.prems(1) e p by (auto split: sum.splits)
  have va: "validateArticle a \<and> validateUrl (getp a ''url'')" using Cons.prems(3) by simp
  have c: "fst x = entryClass D U w a \<and> items wa = items w"
    using processEntry_class[OF e[unfolded r] Cons.prems(2) va] .
  have "map fst xs' = map (entryClass D U w) xs \<and> items wb = items w"
    using Cons.IH[OF p[unfolded rest]] c Cons.prems(3) by simp
  then show ?case using c rs w2 by simp
qed

lemma count_classes:
  "length (filter (\<lambda>r. fst r = c) rs) = length (filter (\<lambda>t. t = c) (map fst rs))"
  by (induction rs) auto

lemma count_valid:
  assumes "\<And>e. \<not> P e \<Longrightarrow> f e = Skipped"
  shows "length (filter (\<lambda>t. t = Imported) (map f (filter P es)))
           = length (filter (\<lambda>e. f e = Imported) es)"
    and "length (filter (\<lambda>t. t = Updated) (map f (filter P es)))
           = length (filter (\<lambda>e. f e = Updated) es)"
    and "length es - length (filter P es)
           + length (filter (\<lambda>t. t = Skipped) (map f (filter P es)))
           = length (filter (\<lambda>e. f e = Skipped) es)"
proof -
  show "length (filter (\<lambda>t. t = Imported) (map f (filter P es)))
           = length (filter (\<lambda>e. f e = Imported) es)"
    using assms by (induction es) auto
  show "length (filter (\<lambda>t. t = Updated) (map f (filter P es)))
           = length (filter (\<lambda>e. f e = Updated) es)"
    using assms by (induction es) auto
  have "length (filter P es) \<le> length es" by simp
  moreover have "length (filter (\<lambda>e. f e = Skipped) es)
          = length (filter (\<lambda>e. \<not> P e) es)
            + length (filter (\<lambda>t. t = Skipped) (map f (filter P es)))"
    using assms by (induction es) auto
  moreover have "length (filter (\<lambda>e. \<not> P e) es) + length (filter P es) = length es"
    by (induction es) auto
  ultimately show "length es - length (filter P es)
           + length (filter (\<lambda>t. t = Skipped) (map f (filter P es)))
           = length (filter (\<lambda>e. f e = Skipped) es)"
    by arith
qed

lemma classified_once:
  "length (filter (\<lambda>e. f e = Imported) es) + length (filter (\<lambda>e. f e = Updated) es)
     + length (filter (\<lambda>e. f e = Skipped) es) = length es"
proof (induction es)
  case Nil
  then show ?case by simp
next
  case (Cons e es)
  then show ?case by (cases "f e") auto
qed

lemma validateImportData_articles:
  "validateImportData importData = None \<Longrightarrow> \<exists>entries. getp importData ''articles'' = JArr entries"
  by (cases "getp importData ''articles''") (auto simp: validateImportData_def split: if_splits)

text \<open>
  Claim C5 (import count conservation).  A structurally valid import object is one that
  \<^verbatim>\<open>validateImportData\<close> accepts; it has an \<^verbatim>\<open>articles\<close> array.  Every entry of the array
  has one class, given by \<open>entryClass\<close>: imported (no prior record, marked read), updated
  (prior record, accepted by the import merge), or skipped (structurally invalid, without
  a usable url, rejected by the merge, or new and not marked read).  Whenever
  \<^verbatim>\<open>processImportBatch\<close> returns a result, \<^verbatim>\<open>imported\<close>, \<^verbatim>\<open>updated\<close> and \<^verbatim>\<open>skipped\<close> are
  the numbers of entries of the class of that name, and their sum is the number of entries
  of the array; and it does return a result when no storage call fails.
\<close>

theorem processImportBatch_counts:
  assumes "validateImportData importData = None"
  shows "\<exists>entries. getp importData ''articles'' = JArr entries
          \<and> (\<forall>res w'. processImportBatch D U importData w = (Inr res, w')
                \<longrightarrow> imported res = length (filter (\<lambda>e. entryClass D U w e = Imported) entries)
                    \<and> updated res = length (filter (\<lambda>e. entryClass D U w e = Updated) entries)
                    \<and> skipped res = length (filter (\<lambda>e. entryClass D U w e = Skipped) entries)
                    \<and> imported res + updated res + skipped res = length entries)
          \<and> (storageHealthy w \<longrightarrow> (\<exists>res w'. processImportBatch D U importData w = (Inr res, w')))"
proof -
  obtain entries where a: "getp importData ''articles'' = JArr entries"
    using validateImportData_articles[OF assms] by blast
  have ok: "truthy importData" "typeofObject importData"
    using assms by (auto simp: validateImportData_def split: if_splits)
  let ?P = "\<lambda>article. validateArticle article \<and> validateUrl (getp article ''url'')"
  let ?valid = "filter ?P entries"
  let ?f = "entryClass D U w"
  have inv: "?f e = Skipped" if "\<not> ?P e" for e
    using that by (auto simp: entryClass_def)
  have counts: "imported res = length (filter (\<lambda>e. ?f e = Imported) entries)
                    \<and> updated res = length (filter (\<lambda>e. ?f e = Updated) entries)
                    \<and> skipped res = length (filter (\<lambda>e. ?f e = Skipped) entries)
                    \<and> imported res + updated res + skipped res = length entries"
    if r: "processImportBatch D U importData w = (Inr res, w')" for res w'
  proof -
    obtain rs where p: "processAll D U ?valid w = (Inr rs, w')"
      and res: "res = \<lparr>articlesToSave = map snd (filter (\<lambda>r. fst r \<noteq> Skipped) rs),
                           imported = length (filter (\<lambda>r. fst r = Imported) rs),
                           updated = length (filter (\<lambda>r. fst r = Updated) rs),
                           skipped = length entries - length ?valid
                                     + length (filter (\<lambda>r. fst r = Skipped) rs)\<rparr>"
      using r a ok by (auto simp: processImportBatch_def Let_def split: prod.splits sum.splits)
    have m: "map fst rs = map ?f ?valid"
      using processAll_classes[OF p refl] by simp
    have i: "imported res = length (filter (\<lambda>e. ?f e = Imported) entries)"
      using count_valid(1)[of ?P ?f entries, OF inv] m by (simp add: res count_classes)
    have u: "updated res = length (filter (\<lambda>e. ?f e = Updated) entries)"
      using count_valid(2)[of ?P ?f entries, OF inv] m by (simp add: res count_classes)
    have s: "skipped res = length (filter (\<lambda>e. ?f e = Skipped) entries)"
      using count_valid(3)[of ?P ?f entries, OF inv] m by (simp add: res count_classes)
    show ?thesis using i u s classified_once[of ?f entries] by simp
  qed
  have returns: "\<exists>res w'. processImportBatch D U importData w = (Inr res, w')"
    if h: "storageHealthy w"
  proof -
    obtain rs w' where "processAll D U ?valid w = (Inr rs, w')"
      using processAll_returns[OF h] by blast
    then show ?thesis using a ok by (simp add: processImportBatch_def)
  qed
  show ?thesis using a counts returns by blast
qed

lemma processImportBatch_sampleBackup:
  "fst (processImportBatch sampleDate sampleURL sampleBackup popupStored) =
     Inr \<lparr>articlesToSave =
         [JObj
           [(''url'', JStr ''https://lethain.com/a''),
            (''title'', JStr ''A''),
            (''publishedDate'', JStr ''2023-12-24''),
            (''dateText'', JStr ''December 24, 2023''),
            (''isRead'', JBool True),
            (''readDate'', JStr ''2024-06-01T00:00:00.000Z'')],
          JObj
           [(''url'', JStr ''https://lethain.com/b''),
            (''title'', JStr ''B''), (''publishedDate'', JStr []),
            (''dateText'', JStr []), (''isRead'', JBool True),
            (''readDate'', JStr ''2024-01-01T00:00:00.000Z'')]],
         imported = 1, updated = 1, skipped = 3\<rparr>"
  by (simp add: processImportBatch_def sampleBackup_def popupStored_def popupWorld_def
      emptyWorld_def validateArticle_def processEntry_def getStorageKey_def
      normalize_a normalize_b normalize_c storageGet_def nextCall_def CONFIG_storage_prefix_def
      trim_def isWhiteSpace_def jsor_def mergeArticleDataForImport_def importMerged_def
      readRecord_def sampleDate_def dateGreater_def Let_def)

lemma entryClass_sampleBackup:
  "map (entryClass sampleDate sampleURL popupStored)
     [JObj [(''url'', JStr ''https://lethain.com/a''), (''isRead'', JBool True),
            (''readDate'', JStr ''2024-06-01T00:00:00.000Z'')],
      JObj [(''url'', JStr ''https://lethain.com/b''), (''title'', JStr ''B''),
            (''isRead'', JBool True), (''readDate'', JStr ''2024-01-01T00:00:00.000Z'')],
      JObj [(''url'', JStr ''https://lethain.com/c''), (''isRead'', JBool False),
            (''readDate'', JNull)],
      JNull,
      JObj [(''title'', JStr ''no url'')]]
   = [Updated, Imported, Skipped, Skipped, Skipped]"
  by (simp add: entryClass_def popupStored_def popupWorld_def
      emptyWorld_def validateArticle_def getStorageKey_def
      normalize_a normalize_b normalize_c CONFIG_storage_prefix_def
      trim_def isWhiteSpace_def jsor_def mergeArticleDataForImport_def importMerged_def
      readRecord_def sampleDate_def dateGreater_def Let_def)

theorem processImportBatch_counts_witness:
  "validateImportData sampleBackup = None
   \<and> storageHealthy popupStored
   \<and> (\<exists>entries res w'.
         getp sampleBackup ''articles'' = JArr entries
         \<and> length entries = 5
         \<and> map (entryClass sampleDate sampleURL popupStored) entries
             = [Updated, Imported, Skipped, Skipped, Skipped]
         \<and> processImportBatch sampleDate sampleURL sampleBackup popupStored = (Inr res, w')
         \<and> imported res = length (filter (\<lambda>e. entryClass sampleDate sampleURL popupStored e = Imported) entries)
         \<and> updated res = length (filter (\<lambda>e. entryClass sampleDate sampleURL popupStored e = Updated) entries)
         \<and> skipped res = length (filter (\<lambda>e. entryClass sampleDate sampleURL popupStored e = Skipped) entries)
         \<and> imported res = 1 \<and> updated res = 1 \<and> skipped res = 3
         \<and> imported res + updated res + skipped res = length entries)"
proof -
  have v: "validateImportData sampleBackup = None"
    by (simp add: validateImportData_def sampleBackup_def)
  have h: "storageHealthy popupStored"
    by (simp add: storageHealthy_def popupStored_def popupWorld_def emptyWorld_def)
  obtain entries where a: "getp sampleBackup ''articles'' = JArr entries"
    and s: "\<forall>res w'. processImportBatch sampleDate sampleURL sampleBackup popupStored = (Inr res, w')
                \<longrightarrow> imported res = length (filter (\<lambda>e. entryClass sampleDate sampleURL popupStored e = Imported) entries)
                    \<and> updated res = length (filter (\<lambda>e. entryClass sampleDate sampleURL popupStored e = Updated) entries)
                    \<and> skipped res = length (filter (\<lambda>e. entryClass sampleDate sampleURL popupStored e = Skipped) entries)
                    \<and> imported res + updated res + skipped res = length entries"
    and r: "storageHealthy popupStored
              \<longrightarrow> (\<exists>res w'. processImportBatch sampleDate sampleURL sampleBackup popupStored
                              = (Inr res, w'))"
    using processImportBatch_counts[OF v, of sampleDate sampleURL popupStored] by blast
  obtain res w' where p: "processImportBatch sampleDate sampleURL sampleBackup popupStored = (Inr res, w')"
    using r h by blast
  have n: "length entries = 5"
    using a by (auto simp: sampleBackup_def)
  have m: "map (entryClass sampleDate sampleURL popupStored) entries
             = [Updated, Imported, Skipped, Skipped, Skipped]"
    using a entryClass_sampleBackup by (auto simp: sampleBackup_def)
  have c: "imported res = 1 \<and> updated res = 1 \<and> skipped res = 3"
    using p processImportBatch_sampleBackup by auto
  note cs = s[rule_format, OF p]
  show ?thesis
    using v h a n m p c cs
    by (intro conjI exI[of _ entries] exI[of _ res] exI[of _ w']) simp_all
qed


section \<open>Read state of the records written\<close>

lemma validated_object: "validateArticleStructure a \<Longrightarrow> \<exists>ps. a = JObj ps"
  by (cases a) (auto simp: validateArticleStructure_def split: if_splits)

lemma validated_isRead:
  "validateArticleStructure a \<Longrightarrow> getp a ''isRead'' = JUndefined \<or> (\<exists>b. getp a ''isRead'' = JBool b)"
  by (cases "getp a ''isRead''") (auto simp: validateArticleStructure_def split: if_splits)

lemma not_own_undefined: "\<not> ownKey a k \<Longrightarrow> getp a k = JUndefined"
  by (cases a) (auto split: option.splits)

lemma recordOk_object: "recordOk e \<Longrightarrow> \<exists>ps. e = JObj ps"
  by (cases e) (auto simp: recordOk_def readStateOk_def)

lemma determineReadStatus_returns:
  assumes v: "validateArticleStructure newArticle"
  shows "if ownKey newArticle ''hasOwnProperty''
         then determineReadStatus now existing newArticle = Inl TypeError
         else (\<exists>i d. determineReadStatus now existing newArticle = Inr (i, d))"
proof -
  obtain ps where a: "newArticle = JObj ps"
    using validated_object[OF v] by blast
  show ?thesis using a by (auto simp: determineReadStatus_def Let_def)
qed

lemma determineReadStatus_invariant:
  assumes v: "validateArticleStructure newArticle"
      and n: "now \<noteq> []"
      and e: "truthy existing \<longrightarrow> recordOk existing"
      and r: "determineReadStatus now existing newArticle = Inr (i, d)"
  shows "readStateOk i d \<longleftrightarrow> suppliedOk existing newArticle"
proof -
  obtain ps where a: "newArticle = JObj ps"
    using validated_object[OF v] by blast
  have h: "hasOwnProperty newArticle ''isRead'' = Inr (ownKey newArticle ''isRead'')"
    using r a by (auto simp: determineReadStatus_def Let_def split: if_splits)
  show ?thesis
  proof (cases "ownKey newArticle ''isRead''")
    case True
    have r': "i = jsor (getp newArticle ''isRead'') (JBool False)
              \<and> d = (if getp newArticle ''readDate'' \<noteq> JUndefined
                          then getp newArticle ''readDate''
                          else if truthy i then JStr now else JNull)"
      using r a h True by (auto simp: determineReadStatus_def Let_def)
    from validated_isRead[OF v] show ?thesis
    proof
      assume u: "getp newArticle ''isRead'' = JUndefined"
      show ?thesis using True u r' n
        by (auto simp: suppliedOk_def jsor_def readStateOk_def)
    next
      assume "\<exists>b. getp newArticle ''isRead'' = JBool b"
      then obtain b where b: "getp newArticle ''isRead'' = JBool b" by blast
      show ?thesis using True b r' n
        by (auto simp: suppliedOk_def jsor_def readStateOk_def)
    qed
  next
    case False
    have u: "getp newArticle ''isRead'' = JUndefined"
      using not_own_undefined[OF False] .
    show ?thesis
    proof (cases "truthy existing")
      case True
      then have ok: "recordOk existing" using e by simp
      then obtain qs where q: "existing = JObj qs"
        using recordOk_object by blast
      have "i = jsor (getp existing ''isRead'') (JBool False)
            \<and> d = jsor (getp existing ''readDate'') JNull"
        using r a h False q by (auto simp: determineReadStatus_def Let_def)
      then have "readStateOk i d"
        using ok by (auto simp: recordOk_def jsor_def readStateOk_def)
      then show ?thesis using False True by (simp add: suppliedOk_def)
    next
      case F: False
      have "i = JBool False \<and> d = jsor (getp newArticle ''readDate'') JNull"
        using r a h False F u
        by (cases existing) (auto simp: determineReadStatus_def Let_def jsor_def)
      then show ?thesis using False F
        by (auto simp: suppliedOk_def jsor_def readStateOk_def)
    qed
  qed
qed

lemma determineReadStatus_explicit:
  assumes "map_of ps ''isRead'' = Some (JBool b)"
      and "map_of ps ''readDate'' = Some d" and "d \<noteq> JUndefined"
      and "determineReadStatus now existing (JObj ps) = Inr (i, d')"
  shows "i = JBool b \<and> d' = d"
  using assms by (auto simp: determineReadStatus_def Let_def jsor_def split: if_splits)

lemma prefix_not_filter: "CONFIG_storage_prefix @ x \<noteq> CONFIG_storage_filterKey"
  by (simp add: CONFIG_storage_prefix_def CONFIG_storage_filterKey_def)

lemma getStorageKey_not_filter: "getStorageKey U n \<noteq> CONFIG_storage_filterKey"
  using prefix_not_filter
  by (auto simp: getStorageKey_def CONFIG_storage_filterKey_def)

lemma getp_member: "truthy (getp (JObj ps) k) \<Longrightarrow> (k, getp (JObj ps) k) \<in> set ps"
  by (auto split: option.splits dest: map_of_SomeD)

lemma heldOk_item:
  "heldOk w \<Longrightarrow> (k, v) \<in> set (items w) \<Longrightarrow> k \<noteq> CONFIG_storage_filterKey \<Longrightarrow> truthy v
     \<Longrightarrow> recordOk v"
  by (auto simp: heldOk_def list_all_iff)

lemma priorRecord_ok:
  assumes h: "heldOk w" and t: "truthy (priorRecord U w x)"
  shows "recordOk (priorRecord U w x)"
proof (cases x)
  case (JStr url)
  let ?key = "getStorageKey U (normalizeUrl U url defaultBaseUrl)"
  have v: "\<not> (url = [] \<or> \<not> validateUrl (JStr url))"
    using t JStr by (auto split: if_splits)
  then have p: "priorRecord U w x = jsor (getp (JObj (items w)) ?key) JNull"
    using JStr by simp
  then have tv: "truthy (getp (JObj (items w)) ?key)"
    and pv: "priorRecord U w x = getp (JObj (items w)) ?key"
    using t by (auto simp: jsor_def split: if_splits)
  have "(?key, getp (JObj (items w)) ?key) \<in> set (items w)"
    using getp_member[OF tv] .
  then show ?thesis
    using heldOk_item[OF h _ getStorageKey_not_filter tv] pv by simp
qed (use t in auto)

lemma writesOk_refl: "items w' = items w \<Longrightarrow> writesOk w w'"
  by (simp add: writesOk_def list_all_iff)

lemma writesOk_from: "items w1 = items w \<Longrightarrow> writesOk w1 w' \<Longrightarrow> writesOk w w'"
  by (simp add: writesOk_def)

lemma writesOk_update:
  "writesOk w w1 \<Longrightarrow> items w' = AList.update k v (items w1) \<Longrightarrow> recordOk v \<Longrightarrow> writesOk w w'"
  using set_update_subset[of k v "items w1"]
  by (auto simp: writesOk_def list_all_iff)

lemma storageSet_single:
  "storageSet [(k, v)] w = (r, w')
   \<Longrightarrow> (r = Inr () \<and> items w' = AList.update k v (items w)) \<or> ((\<exists>e. r = Inl e) \<and> items w' = items w)"
  using nextCall_frame(1)[of w]
  by (auto simp: storageSet_def split: prod.splits option.splits)

lemma saveArticle_effect:
  assumes "saveArticle U now article w = (res, w')"
  shows "(items w' = items w \<and> (res = Inr JNull \<or> (\<exists>e. res = Inl e)))
       \<or> (\<exists>key data existing url w1 i d.
             res = Inr data
             \<and> validateArticleStructure article
             \<and> getp article ''url'' = JStr url
             \<and> getArticle U (JStr (normalizeUrl U url defaultBaseUrl)) w = (Inr existing, w1)
             \<and> determineReadStatus now existing article = Inr (i, d)
             \<and> items w' = AList.update key data (items w)
             \<and> getp data ''isRead'' = i
             \<and> getp data ''readDate'' = d)"
proof (cases "\<not> truthy article \<or> \<not> typeofObject article \<or> \<not> truthy (getp article ''url'')
              \<or> \<not> validateArticleStructure article \<or> \<not> validateUrl (getp article ''url'')")
  case True
  then show ?thesis using assms by (auto simp: saveArticle_def split: if_splits)
next
  case False
  then obtain url where u: "getp article ''url'' = JStr url"
    by (cases "getp article ''url''") auto
  let ?n = "normalizeUrl U url defaultBaseUrl"
  obtain g w1 where g: "getArticle U (JStr ?n) w = (g, w1)"
    by (cases "getArticle U (JStr ?n) w") auto
  have i1: "items w1 = items w" using getArticle_frame(1)[OF g] .
  show ?thesis
  proof (cases g)
    case (Inl e)
    then show ?thesis using assms False u g i1 by (auto simp: saveArticle_def Let_def)
  next
    case (Inr existing)
    show ?thesis
    proof (cases "determineReadStatus now existing article")
      case (Inl e)
      then show ?thesis using assms False u g Inr i1 by (auto simp: saveArticle_def Let_def)
    next
      case rs: (Inr p)
      obtain i d where p: "p = (i, d)" by (cases p) auto
      let ?data = "JObj
                                 [(''url'', JStr ?n),
                                  (''title'',
                                     jsor (jsor (getp article ''title'')
                                             (jsand existing (getp existing ''title'')))
                                       (JStr [])),
                                  (''publishedDate'',
                                     jsor (jsor (getp article ''publishedDate'')
                                             (jsand existing (getp existing ''publishedDate'')))
                                       (JStr [])),
                                  (''dateText'',
                                     jsor (jsor (jsor (getp article ''dateText'')
                                                   (getp article ''publishedDate''))
                                             (jsand existing (getp existing ''dateText'')))
                                       (JStr [])),
                                  (''isRead'', i),
                                  (''readDate'', d)]"
      obtain s w2 where s: "storageSet [(getStorageKey U ?n, ?data)] w1 = (s, w2)"
        by (cases "storageSet [(getStorageKey U ?n, ?data)] w1") auto
      have r: "(res, w') = (case s of Inl e \<Rightarrow> (Inl e, w2) | Inr u \<Rightarrow> (Inr ?data, w2))"
        using assms False u g Inr rs p s by (simp add: saveArticle_def Let_def)
      from storageSet_single[OF s] show ?thesis
      proof
        assume "s = Inr () \<and> items w2 = AList.update (getStorageKey U ?n) ?data (items w1)"
        then have "res = Inr ?data" "items w' = AList.update (getStorageKey U ?n) ?data (items w)"
          using r i1 by auto
        moreover have "getp ?data ''isRead'' = i" "getp ?data ''readDate'' = d"
          by simp_all
        moreover have "validateArticleStructure article" using False by simp
        ultimately show ?thesis using u g Inr rs p by blast
      next
        assume "(\<exists>e. s = Inl e) \<and> items w2 = items w1"
        then show ?thesis using r i1 by auto
      qed
    qed
  qed
qed

lemma saveArticle_explicit:
  assumes s: "saveArticle U now (JObj ps) w1 = (res, w')"
      and b: "map_of ps ''isRead'' = Some (JBool b)"
      and d: "map_of ps ''readDate'' = Some d" "d \<noteq> JUndefined"
      and ok: "readStateOk (JBool b) d"
      and w: "writesOk w w1"
  shows "writesOk w w'"
proof -
  from saveArticle_effect[OF s] show ?thesis
  proof
    assume "items w' = items w1 \<and> (res = Inr JNull \<or> (\<exists>e. res = Inl e))"
    then show ?thesis using w by (auto simp: writesOk_def)
  next
    assume "\<exists>key data existing url w2 i d'.
             res = Inr data
             \<and> validateArticleStructure (JObj ps)
             \<and> getp (JObj ps) ''url'' = JStr url
             \<and> getArticle U (JStr (normalizeUrl U url defaultBaseUrl)) w1 = (Inr existing, w2)
             \<and> determineReadStatus now existing (JObj ps) = Inr (i, d')
             \<and> items w' = AList.update key data (items w1)
             \<and> getp data ''isRead'' = i
             \<and> getp data ''readDate'' = d'"
    then obtain key data existing i d' where
      rs: "determineReadStatus now existing (JObj ps) = Inr (i, d')"
      and i: "items w' = AList.update key data (items w1)"
      and g: "getp data ''isRead'' = i" "getp data ''readDate'' = d'"
      by blast
    have "i = JBool b \<and> d' = d" using determineReadStatus_explicit[OF b d rs] .
    then have "recordOk data" using g ok by (simp add: recordOk_def)
    then show ?thesis using writesOk_update[OF w i] by simp
  qed
qed

lemma getOrCreateArticle_writes:
  assumes "getOrCreateArticle U now url link el w = (res, w1)"
  shows "writesOk w w1"
proof (cases "url = [] \<or> \<not> validateUrl (JStr url)")
  case True
  then show ?thesis using assms by (auto simp: getOrCreateArticle_def intro: writesOk_refl)
next
  case False
  let ?n = "normalizeUrl U url defaultBaseUrl"
  obtain g w0 where g: "getArticle U (JStr ?n) w = (g, w0)"
    by (cases "getArticle U (JStr ?n) w") auto
  have w0: "writesOk w w0" using getArticle_frame(1)[OF g] by (rule writesOk_refl)
  show ?thesis
  proof (cases g)
    case (Inl e)
    then show ?thesis using assms False g w0 by (simp add: getOrCreateArticle_def Let_def)
  next
    case (Inr article)
    show ?thesis
    proof (cases "truthy article")
      case True
      then show ?thesis using assms False g Inr w0 by (simp add: getOrCreateArticle_def Let_def)
    next
      case F: False
      obtain ps where s: "saveArticle U now (JObj ps) w0 = (res, w1)"
        and b: "map_of ps ''isRead'' = Some (JBool False)" and d: "map_of ps ''readDate'' = Some JNull"
        using assms False g Inr F by (simp add: getOrCreateArticle_def Let_def)
      from saveArticle_explicit[OF s b d _ _ w0] show ?thesis
        by (simp add: readStateOk_def)
    qed
  qed
qed

lemma markAsRead_writes:
  assumes m: "markAsRead U now url link el w = (res, w')" and n: "now \<noteq> []"
  shows "writesOk w w'"
proof (cases url)
  case (JStr u)
  show ?thesis
  proof (cases "u = [] \<or> \<not> validateUrl (JStr u)")
    case True
    then show ?thesis using m JStr by (auto intro: writesOk_refl)
  next
    case False
    obtain g w1 where g: "getOrCreateArticle U now u link el w = (g, w1)"
      by (cases "getOrCreateArticle U now u link el w") auto
    have w1: "writesOk w w1" using getOrCreateArticle_writes[OF g] .
    show ?thesis
    proof (cases g)
      case (Inl e)
      then show ?thesis using m JStr False g w1 by auto
    next
      case (Inr article)
      show ?thesis
      proof (cases "truthy article")
        case F: False
        then show ?thesis using m JStr False g Inr w1 by auto
      next
        case True
        let ?a = "setp (setp article ''isRead'' (JBool True)) ''readDate'' (JStr now)"
        have s: "saveArticle U now ?a w1 = (res, w')"
          using m JStr False g Inr True by simp
        show ?thesis
        proof (cases article)
          case (JObj ps)
          obtain qs where q: "?a = JObj qs"
            and b: "map_of qs ''isRead'' = Some (JBool True)"
            and d: "map_of qs ''readDate'' = Some (JStr now)"
            using JObj by (simp add: update_conv')
          from saveArticle_explicit[OF s[unfolded q] b d _ _ w1] n show ?thesis
            by (simp add: readStateOk_def)
        next
          case JUndefined then show ?thesis using True by simp
        next
          case JNull then show ?thesis using True by simp
        next
          case (JBool x) then show ?thesis using s w1 by (auto simp: saveArticle_def)
        next
          case (JNum x) then show ?thesis using s w1 by (auto simp: saveArticle_def)
        next
          case (JStr x) then show ?thesis using s w1 by (auto simp: saveArticle_def)
        next
          case (JArr x) then show ?thesis using s w1 by (auto simp: saveArticle_def)
        qed
      qed
    qed
  qed
qed (use m in \<open>auto intro: writesOk_refl\<close>)

lemma markAsUnread_writes:
  assumes m: "markAsUnread U now url link el w = (res, w')"
  shows "writesOk w w'"
proof (cases url)
  case (JStr u)
  show ?thesis
  proof (cases "u = [] \<or> \<not> validateUrl (JStr u)")
    case True
    then show ?thesis using m JStr by (auto intro: writesOk_refl)
  next
    case False
    obtain g w1 where g: "getOrCreateArticle U now u link el w = (g, w1)"
      by (cases "getOrCreateArticle U now u link el w") auto
    have w1: "writesOk w w1" using getOrCreateArticle_writes[OF g] .
    show ?thesis
    proof (cases g)
      case (Inl e)
      then show ?thesis using m JStr False g w1 by auto
    next
      case (Inr article)
      show ?thesis
      proof (cases "truthy article")
        case F: False
        then show ?thesis using m JStr False g Inr w1 by auto
      next
        case True
        let ?a = "setp (setp article ''isRead'' (JBool False)) ''readDate'' JNull"
        have s: "saveArticle U now ?a w1 = (res, w')"
          using m JStr False g Inr True by simp
        show ?thesis
        proof (cases article)
          case (JObj ps)
          obtain qs where q: "?a = JObj qs"
            and b: "map_of qs ''isRead'' = Some (JBool False)"
            and d: "map_of qs ''readDate'' = Some JNull"
            using JObj by (simp add: update_conv')
          from saveArticle_explicit[OF s[unfolded q] b d _ _ w1] show ?thesis
            by (simp add: readStateOk_def)
        next
          case JUndefined then show ?thesis using True by simp
        next
          case JNull then show ?thesis using True by simp
        next
          case (JBool x) then show ?thesis using s w1 by (auto simp: saveArticle_def)
        next
          case (JNum x) then show ?thesis using s w1 by (auto simp: saveArticle_def)
        next
          case (JStr x) then show ?thesis using s w1 by (auto simp: saveArticle_def)
        next
          case (JArr x) then show ?thesis using s w1 by (auto simp: saveArticle_def)
        qed
      qed
    qed
  qed
qed (use m in \<open>auto intro: writesOk_refl\<close>)

lemma saveArticle_writes:
  assumes n: "now \<noteq> []"
      and h: "heldOk w"
      and s: "\<forall>url. getp article ''url'' = JStr url
                \<longrightarrow> suppliedOk (priorRecord U w (JStr (normalizeUrl U url defaultBaseUrl))) article"
  shows "writesOk w (snd (saveArticle U now article w))"
proof -
  obtain res w' where r: "saveArticle U now article w = (res, w')"
    by (cases "saveArticle U now article w") auto
  from saveArticle_effect[OF r] have "writesOk w w'"
  proof
    assume "items w' = items w \<and> (res = Inr JNull \<or> (\<exists>e. res = Inl e))"
    then show ?thesis by (simp add: writesOk_refl)
  next
    assume "\<exists>key data existing url w1 i d.
             res = Inr data
             \<and> validateArticleStructure article
             \<and> getp article ''url'' = JStr url
             \<and> getArticle U (JStr (normalizeUrl U url defaultBaseUrl)) w = (Inr existing, w1)
             \<and> determineReadStatus now existing article = Inr (i, d)
             \<and> items w' = AList.update key data (items w)
             \<and> getp data ''isRead'' = i
             \<and> getp data ''readDate'' = d"
    then obtain key data existing url w1 i d where
      v: "validateArticleStructure article"
      and u: "getp article ''url'' = JStr url"
      and g: "getArticle U (JStr (normalizeUrl U url defaultBaseUrl)) w = (Inr existing, w1)"
      and rs: "determineReadStatus now existing article = Inr (i, d)"
      and i: "items w' = AList.update key data (items w)"
      and d: "getp data ''isRead'' = i" "getp data ''readDate'' = d"
      by blast
    have e: "existing = priorRecord U w (JStr (normalizeUrl U url defaultBaseUrl))"
      using getArticle_prior[OF g] .
    have ex: "truthy existing \<longrightarrow> recordOk existing"
      unfolding e using priorRecord_ok[OF h] by blast
    have "suppliedOk existing article"
      unfolding e using s u by blast
    then have "readStateOk i d"
      using determineReadStatus_invariant[OF v n ex rs] by simp
    then have ok: "recordOk data" using d by (simp add: recordOk_def)
    show ?thesis using writesOk_update[OF writesOk_refl[OF refl] i ok] .
  qed
  then show ?thesis using r by simp
qed

lemma update_all:
  "list_all (\<lambda>kv. P (snd kv)) al \<Longrightarrow> P v \<Longrightarrow> list_all (\<lambda>kv. P (snd kv)) (AList.update k v al)"
  by (induction al) auto

lemma cacheLoop_values:
  assumes "cacheLoop (JObj c) ks m = Inr m'"
      and "list_all (\<lambda>kv. recordOk (snd kv)) c"
      and "mapOk m"
  shows "mapOk m'"
  using assms
proof (induction ks arbitrary: m)
  case Nil
  then show ?case by simp
next
  case (Cons k ks)
  obtain own where o: "hasOwnProperty (JObj c) k = Inr own"
    and l: "cacheLoop (JObj c) ks
              (if own then AList.update (JStr k) (getp (JObj c) k) m else m) = Inr m'"
    using Cons.prems(1) by (auto split: sum.splits)
  have "mapOk (if own then AList.update (JStr k) (getp (JObj c) k) m else m)"
  proof (cases own)
    case False
    then show ?thesis using Cons.prems(3) by simp
  next
    case True
    then have "ownKey (JObj c) k" using o by (auto split: if_splits)
    then obtain v where v: "map_of c k = Some v" by auto
    then have "(k, v) \<in> set c" by (rule map_of_SomeD)
    then have "recordOk v" using Cons.prems(2) by (auto simp: list_all_iff)
    moreover have "getp (JObj c) k = v" using v by simp
    ultimately show ?thesis
      using True Cons.prems(3) update_all[of recordOk m v "JStr k"]
      by (simp add: mapOk_def)
  qed
  then show ?case using Cons.IH[OF l Cons.prems(2)] by simp
qed

lemma buildCache_values:
  assumes "\<forall>a \<in> set as. truthy a \<longrightarrow> recordOk a"
      and "list_all (\<lambda>kv. recordOk (snd kv)) acc"
  shows "list_all (\<lambda>kv. recordOk (snd kv)) (buildCache as acc)"
  using assms
proof (induction as arbitrary: acc)
  case Nil
  then show ?case by simp
next
  case (Cons a as)
  show ?case
  proof (cases "truthy a \<and> truthy (getp a ''url'')")
    case True
    have "list_all (\<lambda>kv. recordOk (snd kv)) (AList.update (jsToString (getp a ''url'')) a acc)"
      using True Cons.prems update_all[of recordOk acc a "jsToString (getp a ''url'')"]
      by simp
    then show ?thesis using True Cons.IH[of "AList.update (jsToString (getp a ''url'')) a acc"]
        Cons.prems(1) by simp
  next
    case False
    then show ?thesis using Cons.IH[of acc] Cons.prems by auto
  qed
qed

lemma buildMap_values:
  assumes "\<forall>a \<in> set as. truthy a \<longrightarrow> recordOk a"
      and "mapOk acc"
  shows "mapOk (buildMap as acc)"
  using assms
proof (induction as arbitrary: acc)
  case Nil
  then show ?case by simp
next
  case (Cons a as)
  show ?case
  proof (cases "truthy a \<and> truthy (getp a ''url'')")
    case True
    have "mapOk (AList.update (getp a ''url'') a acc)"
      using True Cons.prems update_all[of recordOk acc a "getp a ''url''"]
      by (simp add: mapOk_def)
    then show ?thesis using True Cons.IH[of "AList.update (getp a ''url'') a acc"]
        Cons.prems(1) by simp
  next
    case False
    then show ?thesis using Cons.IH[of acc] Cons.prems by auto
  qed
qed

lemma prefixed_not_filter:
  "take (length CONFIG_storage_prefix) k = CONFIG_storage_prefix \<Longrightarrow> k \<noteq> CONFIG_storage_filterKey"
  by (auto simp: CONFIG_storage_prefix_def CONFIG_storage_filterKey_def)

lemma getAllArticles_ok:
  assumes h: "heldOk w" and i: "items w1 = items w"
      and g: "getAllArticles w1 = (Inr as, w')"
  shows "\<forall>a \<in> set as. truthy a \<longrightarrow> recordOk a"
proof -
  have as: "as = map snd
                 (filter (\<lambda>kv. length (fst kv) \<ge> length CONFIG_storage_prefix
                              \<and> take (length CONFIG_storage_prefix) (fst kv) = CONFIG_storage_prefix)
                    (items w))"
    using g i by (auto simp: getAllArticles_def storageGet_def split: prod.splits option.splits)
  show ?thesis
  proof (intro ballI impI)
    fix a assume a: "a \<in> set as" and t: "truthy a"
    then obtain k where k: "(k, a) \<in> set (items w)"
      and p: "take (length CONFIG_storage_prefix) k = CONFIG_storage_prefix"
      unfolding as by auto
    show "recordOk a"
      using heldOk_item[OF h k prefixed_not_filter[OF p] t] .
  qed
qed

lemma getArticlesCache_ok:
  assumes h: "heldOk w" and g: "getArticlesCache now w = (Inr c, w')"
  shows "list_all (\<lambda>kv. recordOk (snd kv)) c"
proof (cases "articlesCache w = None \<or> now - cacheTimestamp w > CONFIG_cache_ttl")
  case True
  then obtain as wa where a: "getAllArticles w = (Inr as, wa)" and c: "c = buildCache as []"
    using g by (auto simp: getArticlesCache_def Let_def split: prod.splits sum.splits)
  show ?thesis
    unfolding c using buildCache_values[OF getAllArticles_ok[OF h refl a], of "[]"] by simp
next
  case False
  then obtain c' where "articlesCache w = Some c'" and "c = c'"
    using g by (auto simp: getArticlesCache_def)
  then show ?thesis using h by (simp add: heldOk_def)
qed

lemma getExistingArticlesMap_ok:
  assumes h: "heldOk w" and g: "getExistingArticlesMap now w = (Inr m, w')"
  shows "mapOk m"
proof -
  have fetch: "mapOk m" if "getAllArticles w1 = (Inr as, w2)" "items w1 = items w"
    "m = buildMap as []" for w1 as w2
    using buildMap_values[OF getAllArticles_ok[OF h that(2) that(1)], of "[]"] that(3)
    by (simp add: mapOk_def)
  show ?thesis
  proof (cases "cacheLoaded w")
    case False
    then obtain as w2 where "getAllArticles w = (Inr as, w2)" "m = buildMap as []"
      using g by (auto simp: getExistingArticlesMap_def split: prod.splits sum.splits)
    then show ?thesis using fetch[OF _ refl] by blast
  next
    case True
    obtain r w1 where c: "getArticlesCache now w = (r, w1)"
      by (cases "getArticlesCache now w") auto
    have i1: "items w1 = items w" using getArticlesCache_items[OF c] .
    show ?thesis
    proof (cases r)
      case (Inl e)
      then obtain as w2 where "getAllArticles w1 = (Inr as, w2)" "m = buildMap as []"
        using g True c by (auto simp: getExistingArticlesMap_def split: prod.splits sum.splits)
      then show ?thesis using fetch[OF _ i1] by blast
    next
      case (Inr cache)
      have ok: "list_all (\<lambda>kv. recordOk (snd kv)) cache"
        using getArticlesCache_ok[OF h c[unfolded Inr]] .
      show ?thesis
      proof (cases "cacheLoop (JObj cache) (map fst cache) []")
        case l: (Inl e)
        then obtain as w2 where "getAllArticles w1 = (Inr as, w2)" "m = buildMap as []"
          using g True c Inr
          by (auto simp: getExistingArticlesMap_def split: prod.splits sum.splits)
        then show ?thesis using fetch[OF _ i1] by blast
      next
        case r: (Inr m')
        then have "m = m'"
          using g True c Inr by (auto simp: getExistingArticlesMap_def)
        then show ?thesis using cacheLoop_values[OF r ok] by (simp add: mapOk_def)
      qed
    qed
  qed
qed

lemma mapGet_ok:
  assumes m: "mapOk m" and t: "truthy (mapGet m k)"
  shows "recordOk (mapGet m k)"
proof (cases "map_of m k")
  case None
  then show ?thesis using t by (simp add: mapGet_def)
next
  case (Some v)
  then have "(k, v) \<in> set m" by (rule map_of_SomeD)
  then have "recordOk v" using m by (auto simp: mapOk_def list_all_iff)
  then show ?thesis using Some by (simp add: mapGet_def)
qed

lemma mergeArticleState_ok:
  assumes m: "mergeArticleState U existing a = Inr r"
      and e: "truthy existing \<longrightarrow> recordOk existing"
      and s: "\<not> truthy existing
               \<longrightarrow> readStateOk (jsor (getp a ''isRead'') (JBool False))
                     (jsor (getp a ''readDate'') JNull)"
  shows "recordOk r"
proof (cases "truthy existing")
  case True
  then have ok: "recordOk existing" using e by simp
  have "getp r ''isRead'' = jsor (getp existing ''isRead'') (JBool False)
        \<and> getp r ''readDate'' = jsor (getp existing ''readDate'') JNull"
    using m True by (auto simp: mergeArticleState_def split: if_splits sum.splits)
  then show ?thesis using ok by (auto simp: recordOk_def readStateOk_def jsor_def)
next
  case False
  have "getp r ''isRead'' = jsor (getp a ''isRead'') (JBool False)
        \<and> getp r ''readDate'' = jsor (getp a ''readDate'') JNull"
    using m False by (auto simp: mergeArticleState_def split: if_splits sum.splits)
  then show ?thesis using s False by (simp add: recordOk_def)
qed

lemma saveLoop_ok:
  assumes "saveLoop U m as data = Inr data'"
      and "mapOk m"
      and "list_all savedOk as"
      and "list_all (\<lambda>kv. recordOk (snd kv)) data"
  shows "list_all (\<lambda>kv. recordOk (snd kv)) data'"
  using assms
proof (induction as arbitrary: data)
  case Nil
  then show ?case by simp
next
  case (Cons a as)
  show ?case
  proof (cases "\<not> truthy a \<or> \<not> truthy (getp a ''url'') \<or> \<not> validateUrl (getp a ''url'')")
    case True
    then show ?thesis using Cons by auto
  next
    case False
    then obtain n merged where n: "normalizeUrlV U (getp a ''url'') = Inr n"
      and mg: "mergeArticleState U (mapGet m (JStr n)) a = Inr merged"
      and l: "saveLoop U m as (AList.update (getStorageKey U n) merged data) = Inr data'"
      using Cons.prems(1) by (auto simp: Let_def split: sum.splits)
    have s: "readStateOk (jsor (getp a ''isRead'') (JBool False))
                     (jsor (getp a ''readDate'') JNull)"
      using Cons.prems(3) False by (auto simp: savedOk_def)
    have "recordOk merged"
      using mergeArticleState_ok[OF mg] mapGet_ok[OF Cons.prems(2)] s by blast
    then have "list_all (\<lambda>kv. recordOk (snd kv)) (AList.update (getStorageKey U n) merged data)"
      using Cons.prems(4) update_all[of recordOk data merged "getStorageKey U n"]
      by simp
    then show ?thesis using Cons.IH[OF l Cons.prems(2)] Cons.prems(3) by simp
  qed
qed

lemma saveArticles_writes:
  assumes h: "heldOk w"
      and m: "case existingArticlesMap of Some m \<Rightarrow> mapOk m | None \<Rightarrow> True"
      and s: "list_all savedOk articles"
  shows "writesOk w (snd (saveArticles U now articles existingArticlesMap w))"
proof (cases "articles = []")
  case True
  then show ?thesis by (simp add: saveArticles_def writesOk_refl)
next
  case False
  let ?e = "case existingArticlesMap of
                 Some m \<Rightarrow> (Inr m, w)
               | None \<Rightarrow> getExistingArticlesMap now w"
  obtain r w1 where e: "?e = (r, w1)" by (cases ?e) auto
  have i1: "items w1 = items w"
    using e getExistingArticlesMap_items[of now w r w1] by (cases existingArticlesMap) auto
  show ?thesis
  proof (cases r)
    case (Inl err)
    then show ?thesis using False e i1 by (simp add: saveArticles_def writesOk_refl)
  next
    case (Inr existingMap)
    have ok: "mapOk existingMap"
      using e Inr m getExistingArticlesMap_ok[OF h, of now existingMap w1]
      by (cases existingArticlesMap) auto
    show ?thesis
    proof (cases "saveLoop U existingMap articles []")
      case (Inl err)
      then show ?thesis using False e Inr i1 by (simp add: saveArticles_def writesOk_refl)
    next
      case d: (Inr data)
      have dok: "list_all (\<lambda>kv. recordOk (snd kv)) data"
        using saveLoop_ok[OF d ok s] by simp
      show ?thesis
      proof (cases "data = []")
        case True
        then show ?thesis using False e Inr d i1 by (simp add: saveArticles_def writesOk_refl)
      next
        case ne: False
        obtain r2 w2 where st: "storageSet data w1 = (r2, w2)"
          by (cases "storageSet data w1") auto
        have "set (items w2) \<subseteq> set (items w) \<union> set data"
          using storageSet_items[OF st] i1 by simp
        then have "writesOk w w2"
          using dok by (auto simp: writesOk_def list_all_iff)
        then show ?thesis using False e Inr d ne st by (simp add: saveArticles_def)
      qed
    qed
  qed
qed

lemma processEntry_frame:
  assumes "processEntry D U a w = (r, w')"
  shows "items w' = items w \<and> articlesCache w' = articlesCache w"
proof -
  obtain g w1 where g: "getArticle U (getp a ''url'') w = (g, w1)"
    by (cases "getArticle U (getp a ''url'') w") auto
  have "w' = w1" using assms g by (auto simp: processEntry_def split: sum.splits)
  then show ?thesis using getArticle_frame(1,2)[OF g] by simp
qed

lemma processAll_frame:
  "processAll D U xs w = (r, w') \<Longrightarrow> items w' = items w \<and> articlesCache w' = articlesCache w"
proof (induction xs arbitrary: w r w')
  case Nil
  then show ?case by simp
next
  case (Cons a xs)
  obtain r1 w1 where e: "processEntry D U a w = (r1, w1)"
    by (cases "processEntry D U a w") auto
  obtain r2 w2 where p: "processAll D U xs w1 = (r2, w2)"
    by (cases "processAll D U xs w1") auto
  have "w' = w2" using Cons.prems e p by simp
  then show ?case using processEntry_frame[OF e] Cons.IH[OF p] by simp
qed

lemma processEntry_saved:
  assumes p: "processEntry D U a w = (Inr x, w')"
      and d: "entryDated a"
      and v: "validateArticle a \<and> validateUrl (getp a ''url'')"
  shows "fst x = Skipped \<or> savedOk (snd x)"
proof -
  obtain existing where g: "getArticle U (getp a ''url'') w = (Inr existing, w')"
    using p by (auto simp: processEntry_def split: prod.splits sum.splits)
  have u: "truthy (getp a ''url'')" using v by (simp add: validateArticle_def)
  show ?thesis
  proof (cases "truthy (getp a ''isRead'')")
    case False
    then have "fst x = Skipped"
      using p g by (auto simp: processEntry_def mergeArticleDataForImport_def Let_def
          split: option.splits if_splits)
    then show ?thesis by simp
  next
    case True
    then have rd: "isString (getp a ''readDate'') \<and> truthy (getp a ''readDate'')"
      using d v by (simp add: entryDated_def)
    have m: "savedOk (importMerged e a)" for e
      using u v rd by (simp add: savedOk_def importMerged_def jsor_def readStateOk_def)
    have mm: "merged = importMerged existing a"
      if "mergeArticleDataForImport D existing a = Some merged" for merged
      using that by (auto simp: mergeArticleDataForImport_def Let_def split: if_splits option.splits)
    show ?thesis
    proof (cases "truthy existing")
      case t: True
      show ?thesis
      proof (cases "mergeArticleDataForImport D existing a")
        case None
        then show ?thesis using p g t by (auto simp: processEntry_def)
      next
        case (Some merged)
        then have "snd x = importMerged existing a"
          using p g t mm by (auto simp: processEntry_def)
        then show ?thesis using m by simp
      qed
    next
      case f: False
      have "snd x = JObj
                       [(''url'', getp a ''url''),
                        (''title'', jsor (getp a ''title'') (JStr [])),
                        (''publishedDate'', jsor (getp a ''publishedDate'') (JStr [])),
                        (''dateText'',
                           jsor (jsor (getp a ''dateText'') (getp a ''publishedDate''))
                             (JStr [])),
                        (''isRead'', JBool True),
                        (''readDate'', jsor (getp a ''readDate'') JNull)]"
        using p g f True by (auto simp: processEntry_def)
      then show ?thesis
        using u v rd by (simp add: savedOk_def jsor_def readStateOk_def)
    qed
  qed
qed

lemma processAll_saved:
  assumes "processAll D U xs w = (Inr rs, w')"
      and "\<forall>a \<in> set xs. entryDated a \<and> validateArticle a \<and> validateUrl (getp a ''url'')"
  shows "\<forall>x \<in> set rs. fst x = Skipped \<or> savedOk (snd x)"
  using assms
proof (induction xs arbitrary: w rs w')
  case Nil
  then show ?case by simp
next
  case (Cons a xs)
  obtain r wa where e: "processEntry D U a w = (r, wa)"
    by (cases "processEntry D U a w") auto
  obtain rest wb where p: "processAll D U xs wa = (rest, wb)"
    by (cases "processAll D U xs wa") auto
  obtain x xs' where r: "r = Inr x" and rest: "rest = Inr xs'" and rs: "rs = x # xs'"
    using Cons.prems(1) e p by (auto split: sum.splits)
  have "fst x = Skipped \<or> savedOk (snd x)"
    using processEntry_saved[OF e[unfolded r]] Cons.prems(2) by simp
  moreover have "\<forall>x \<in> set xs'. fst x = Skipped \<or> savedOk (snd x)"
    using Cons.IH[OF p[unfolded rest]] Cons.prems(2) by simp
  ultimately show ?case using rs by simp
qed

lemma processImportBatch_saved:
  assumes p: "processImportBatch D U importData w = (r, w1)"
  shows "items w1 = items w \<and> articlesCache w1 = articlesCache w
         \<and> (\<forall>res. r = Inr res \<and> datedEntries importData \<longrightarrow> list_all savedOk (articlesToSave res))"
proof (cases "\<not> truthy importData \<or> \<not> typeofObject importData")
  case True
  then show ?thesis using p by (auto simp: processImportBatch_def)
next
  case False
  show ?thesis
  proof (cases "getp importData ''articles''")
    case (JArr entries)
    let ?valid =
      "filter (\<lambda>article. validateArticle article \<and> validateUrl (getp article ''url'')) entries"
    obtain q wq where q: "processAll D U ?valid w = (q, wq)"
      by (cases "processAll D U ?valid w") auto
    have w1: "w1 = wq"
      using p False JArr q by (auto simp: processImportBatch_def Let_def split: sum.splits)
    have fr: "items w1 = items w \<and> articlesCache w1 = articlesCache w"
      using processAll_frame[OF q] w1 by simp
    have "list_all savedOk (articlesToSave res)"
      if r: "r = Inr res" and d: "datedEntries importData" for res
    proof -
      obtain rs where rs: "q = Inr rs"
        and a: "articlesToSave res = map snd (filter (\<lambda>r. fst r \<noteq> Skipped) rs)"
        using p False JArr q r by (auto simp: processImportBatch_def Let_def split: sum.splits)
      have "\<forall>a \<in> set ?valid. entryDated a \<and> validateArticle a \<and> validateUrl (getp a ''url'')"
        using d JArr by (auto simp: datedEntries_def list_all_iff)
      then have "\<forall>x \<in> set rs. fst x = Skipped \<or> savedOk (snd x)"
        using processAll_saved[OF q[unfolded rs]] by blast
      then show ?thesis unfolding a by (auto simp: list_all_iff)
    qed
    then show ?thesis using fr by blast
  qed (use p False in \<open>auto simp: processImportBatch_def\<close>)
qed

lemma heldOk_frame:
  "items w1 = items w \<Longrightarrow> articlesCache w1 = articlesCache w \<Longrightarrow> heldOk w \<Longrightarrow> heldOk w1"
  by (simp add: heldOk_def)

lemma importDataFromFile_writes:
  assumes h: "heldOk w" and d: "datedEntries importData"
  shows "writesOk w (snd (importDataFromFile D U now importData w))"
proof (cases "validateImportData importData")
  case (Some msg)
  then show ?thesis by (simp add: importDataFromFile_def writesOk_refl)
next
  case None
  obtain r w1 where p: "processImportBatch D U importData w = (r, w1)"
    by (cases "processImportBatch D U importData w") auto
  note s = processImportBatch_saved[OF p]
  have i1: "items w1 = items w" using s by simp
  have h1: "heldOk w1" using heldOk_frame[OF _ _ h] s by simp
  show ?thesis
  proof (cases r)
    case (Inl e)
    then show ?thesis using None p i1 by (simp add: importDataFromFile_def writesOk_refl)
  next
    case (Inr res)
    have ok: "list_all savedOk (articlesToSave res)" using s Inr d by simp
    have "writesOk w1 (snd (saveArticles U now (articlesToSave res) None w1))"
      using saveArticles_writes[OF h1 _ ok, of None U now] by simp
    then have "writesOk w (snd (saveArticles U now (articlesToSave res) None w1))"
      using writesOk_from[OF i1] by simp
    then show ?thesis
      using None p Inr i1
      by (auto simp: importDataFromFile_def writesOk_refl split: prod.splits sum.splits)
  qed
qed

text \<open>
  Claim C2 (record read-state invariant), as the code has it.

  \<^verbatim>\<open>determineReadStatus\<close>: take an article that \<^verbatim>\<open>validateArticleStructure\<close> accepts and
  an existing record that is absent or satisfies the invariant.  Then the pair that is
  returned satisfies the invariant exactly when the read state that the article supplies
  is consistent (\<open>suppliedOk\<close>); and a pair is returned unless the article has an own
  property named \<^verbatim>\<open>hasOwnProperty\<close>, with which the call throws a \<^verbatim>\<open>TypeError\<close>.
  The timestamp \<open>now\<close> that \<^verbatim>\<open>toISOString\<close> returns is not the empty string.

  The write paths, in a context whose held records satisfy the invariant (\<open>heldOk\<close>):
  \<^item> \<^verbatim>\<open>saveArticle\<close> writes only records that satisfy the invariant when the read state
    that the article supplies is consistent, given the record stored for its url;
  \<^item> \<^verbatim>\<open>saveArticles\<close> does when every article that it does not drop supplies a consistent
    read state (\<open>savedOk\<close>) and the map of existing articles that it is given, if it is
    given one, holds records that satisfy the invariant;
  \<^item> the import does when every entry that is marked read carries a read date
    (\<open>datedEntries\<close>).

  \<^verbatim>\<open>markAsRead\<close> and \<^verbatim>\<open>markAsUnread\<close> write only records that satisfy the invariant,
  whatever is stored.
\<close>

theorem read_state_invariant:
  assumes n: "now \<noteq> []"
  shows "(validateArticleStructure newArticle \<and> (truthy existing \<longrightarrow> recordOk existing)
            \<longrightarrow> (\<forall>isRead readDate.
                    determineReadStatus now existing newArticle = Inr (isRead, readDate)
                    \<longrightarrow> (readStateOk isRead readDate \<longleftrightarrow> suppliedOk existing newArticle))
                \<and> (if ownKey newArticle ''hasOwnProperty''
                   then determineReadStatus now existing newArticle = Inl TypeError
                   else (\<exists>isRead readDate.
                          determineReadStatus now existing newArticle = Inr (isRead, readDate))))
       \<and> (heldOk w
            \<and> (\<forall>url. getp article ''url'' = JStr url
                   \<longrightarrow> suppliedOk (priorRecord U w (JStr (normalizeUrl U url defaultBaseUrl)))
                         article)
            \<longrightarrow> writesOk w (snd (saveArticle U now article w)))
       \<and> (heldOk w
            \<and> (case existingArticlesMap of Some m \<Rightarrow> mapOk m | None \<Rightarrow> True)
            \<and> list_all savedOk articles
            \<longrightarrow> writesOk w (snd (saveArticles U time articles existingArticlesMap w)))
       \<and> (heldOk w \<and> datedEntries importData
            \<longrightarrow> writesOk w (snd (importDataFromFile D U time importData w)))
       \<and> writesOk w (snd (markAsRead U now target link el w))
       \<and> writesOk w (snd (markAsUnread U now target link el w))"
proof -
  have r: "writesOk w (snd (markAsRead U now target link el w))"
    using markAsRead_writes[OF _ n, of U target link el w]
    by (cases "markAsRead U now target link el w") auto
  have u: "writesOk w (snd (markAsUnread U now target link el w))"
    using markAsUnread_writes[of U now target link el w]
    by (cases "markAsUnread U now target link el w") auto
  have d: "(\<forall>isRead readDate.
                    determineReadStatus now existing newArticle = Inr (isRead, readDate)
                    \<longrightarrow> (readStateOk isRead readDate \<longleftrightarrow> suppliedOk existing newArticle))
                \<and> (if ownKey newArticle ''hasOwnProperty''
                   then determineReadStatus now existing newArticle = Inl TypeError
                   else (\<exists>isRead readDate.
                          determineReadStatus now existing newArticle = Inr (isRead, readDate)))"
    if "validateArticleStructure newArticle" "truthy existing \<longrightarrow> recordOk existing"
    using determineReadStatus_invariant[OF that(1) n that(2)]
      determineReadStatus_returns[OF that(1), of now existing]
    by blast
  have s: "writesOk w (snd (saveArticle U now article w))"
    if "heldOk w" "\<forall>url. getp article ''url'' = JStr url
                   \<longrightarrow> suppliedOk (priorRecord U w (JStr (normalizeUrl U url defaultBaseUrl)))
                         article"
    using saveArticle_writes[OF n that] .
  have m: "writesOk w (snd (saveArticles U time articles existingArticlesMap w))"
    if "heldOk w" "case existingArticlesMap of Some m \<Rightarrow> mapOk m | None \<Rightarrow> True"
      "list_all savedOk articles"
    using saveArticles_writes[OF that] .
  have i: "writesOk w (snd (importDataFromFile D U time importData w))"
    if "heldOk w" "datedEntries importData"
    using importDataFromFile_writes[OF that] .
  show ?thesis using r u d s m i by blast
qed

theorem read_state_invariant_witness:
  "validateArticleStructure consistentArticle
   \<and> recordOk readRecord
   \<and> suppliedOk readRecord consistentArticle
   \<and> \<not> ownKey consistentArticle ''hasOwnProperty''
   \<and> (\<exists>isRead readDate.
         determineReadStatus ''2024-07-01T00:00:00.000Z'' readRecord consistentArticle
           = Inr (isRead, readDate)
         \<and> readStateOk isRead readDate)
   \<and> heldOk popupStored
   \<and> priorRecord sampleURL popupStored (JStr ''https://lethain.com/a'') = readRecord
   \<and> writesOk popupStored
        (snd (saveArticle sampleURL ''2024-07-01T00:00:00.000Z'' consistentArticle popupStored))
   \<and> list_all savedOk [consistentArticle]
   \<and> writesOk popupStored
        (snd (saveArticles sampleURL 5000 [consistentArticle] None popupStored))
   \<and> datedEntries sampleBackup
   \<and> writesOk popupStored
        (snd (importDataFromFile sampleDate sampleURL 5000 sampleBackup popupStored))
   \<and> writesOk popupStored
        (snd (markAsRead sampleURL ''2024-07-01T00:00:00.000Z'' (JStr ''https://lethain.com/a'')
               None None popupStored))
   \<and> writesOk popupStored
        (snd (markAsUnread sampleURL ''2024-07-01T00:00:00.000Z'' (JStr ''https://lethain.com/a'')
               None None popupStored))"
proof -
  have n: "''2024-07-01T00:00:00.000Z'' \<noteq> []" by simp
  have v: "validateArticleStructure consistentArticle"
    by (simp add: validateArticleStructure_def consistentArticle_def)
  have e: "recordOk readRecord"
    by (simp add: recordOk_def readRecord_def readStateOk_def)
  have c: "suppliedOk readRecord consistentArticle"
    by (simp add: suppliedOk_def consistentArticle_def jsor_def readStateOk_def)
  have o: "\<not> ownKey consistentArticle ''hasOwnProperty''"
    by (simp add: consistentArticle_def)
  have h: "heldOk popupStored"
    using e by (simp add: heldOk_def popupStored_def popupWorld_def emptyWorld_def)
  have p: "priorRecord sampleURL popupStored (JStr ''https://lethain.com/a'') = readRecord"
    by (simp add: getStorageKey_def normalize_a CONFIG_storage_prefix_def popupStored_def
        popupWorld_def emptyWorld_def trim_def isWhiteSpace_def jsor_def readRecord_def)
  have f: "\<forall>url. getp consistentArticle ''url'' = JStr url
                   \<longrightarrow> suppliedOk (priorRecord sampleURL popupStored
                                      (JStr (normalizeUrl sampleURL url defaultBaseUrl)))
                         consistentArticle"
  proof (intro allI impI)
    fix url assume "getp consistentArticle ''url'' = JStr url"
    then have "url = ''https://lethain.com/a''" by (simp add: consistentArticle_def)
    then show "suppliedOk (priorRecord sampleURL popupStored
                                      (JStr (normalizeUrl sampleURL url defaultBaseUrl)))
                         consistentArticle"
      using c by (simp only: normalize_a p)
  qed
  have s: "list_all savedOk [consistentArticle]"
    by (simp add: savedOk_def consistentArticle_def jsor_def readStateOk_def)
  have d: "datedEntries sampleBackup"
    by (simp add: datedEntries_def sampleBackup_def entryDated_def validateArticle_def)
  have te: "truthy readRecord \<longrightarrow> recordOk readRecord" using e by simp
  note t = read_state_invariant[OF n, where existing = readRecord
             and newArticle = consistentArticle and w = popupStored and U = sampleURL
             and article = consistentArticle and articles = "[consistentArticle]"
             and existingArticlesMap = None and time = 5000 and D = sampleDate
             and importData = sampleBackup and target = "JStr ''https://lethain.com/a''"
             and link = None and el = None]
  have t1: "\<exists>isRead readDate.
         determineReadStatus ''2024-07-01T00:00:00.000Z'' readRecord consistentArticle
           = Inr (isRead, readDate)
         \<and> readStateOk isRead readDate"
  proof -
    note td = t[THEN conjunct1, rule_format, OF conjI[OF v te]]
    obtain isRead readDate where
      r: "determineReadStatus ''2024-07-01T00:00:00.000Z'' readRecord consistentArticle
            = Inr (isRead, readDate)"
      using td o by auto
    then have "readStateOk isRead readDate" using td c by blast
    then show ?thesis using r by blast
  qed
  have t2: "writesOk popupStored
        (snd (saveArticle sampleURL ''2024-07-01T00:00:00.000Z'' consistentArticle popupStored))"
    using t h f by blast
  have t3: "writesOk popupStored
        (snd (saveArticles sampleURL 5000 [consistentArticle] None popupStored))"
    using t h s by simp
  have t4: "writesOk popupStored
        (snd (importDataFromFile sampleDate sampleURL 5000 sampleBackup popupStored))"
    using t h d by blast
  have t5: "writesOk popupStored
        (snd (markAsRead sampleURL ''2024-07-01T00:00:00.000Z'' (JStr ''https://lethain.com/a'')
               None None popupStored))"
    using t by blast
  have t6: "writesOk popupStored
        (snd (markAsUnread sampleURL ''2024-07-01T00:00:00.000Z'' (JStr ''https://lethain.com/a'')
               None None popupStored))"
    using t by blast
  show ?thesis using v e c o t1 h p t2 s t3 d t4 t5 t6 by blast
qed

text \<open>
  Against claim C2 as stated.  The validators accept an article that says
  \<^verbatim>\<open>isRead = false\<close> and carries a readDate, and \<^verbatim>\<open>determineReadStatus\<close> returns that
  pair as it is.  They accept a draft without \<^verbatim>\<open>isRead\<close> that carries a readDate; with
  no existing record it comes back unread with that readDate.  They accept an existing
  record that is read and has no readDate, and \<^verbatim>\<open>determineReadStatus\<close> hands that read
  state on.  The import of a backup entry that is marked read and has no readDate stores
  a record with \<^verbatim>\<open>isRead = true\<close> and \<^verbatim>\<open>readDate = null\<close>.  And \<^verbatim>\<open>saveArticles\<close>
  writes the read state of a stored record back as it finds it.
\<close>

theorem read_state_invariant_counterexample:
  "validateArticleStructure inconsistentArticle
   \<and> determineReadStatus ''2024-07-01T00:00:00.000Z'' JNull inconsistentArticle
       = Inr (JBool False, JStr ''2024-01-01T00:00:00.000Z'')
   \<and> validateArticleStructure datedDraft
   \<and> determineReadStatus ''2024-07-01T00:00:00.000Z'' JNull datedDraft
       = Inr (JBool False, JStr ''2024-01-01T00:00:00.000Z'')
   \<and> validateArticleStructure undatedRecord
   \<and> validateArticleStructure sampleDraft
   \<and> determineReadStatus ''2024-07-01T00:00:00.000Z'' undatedRecord sampleDraft
       = Inr (JBool True, JNull)
   \<and> items (snd (importDataFromFile sampleDate sampleURL 5000 undatedBackup popupWorld)) =
       [(''article_https://lethain.com/b'',
         JObj [(''url'', JStr ''https://lethain.com/b''), (''title'', JStr ''B''),
               (''publishedDate'', JStr []), (''dateText'', JStr []),
               (''isRead'', JBool True), (''readDate'', JNull)])]
   \<and> items (snd (saveArticles sampleURL 5000 [sampleDraft] None undatedStored)) =
       [(''article_https://lethain.com/a'',
         JObj [(''url'', JStr ''https://lethain.com/a''), (''title'', JStr ''New Title''),
               (''publishedDate'', JStr []), (''dateText'', JStr []),
               (''isRead'', JBool True), (''readDate'', JNull)])]
   \<and> readStateOk (JBool False) (JStr ''2024-01-01T00:00:00.000Z'') = False
   \<and> readStateOk (JBool True) JNull = False"
proof -
  have a: "validateArticleStructure inconsistentArticle"
    "validateArticleStructure datedDraft"
    "validateArticleStructure undatedRecord"
    "validateArticleStructure sampleDraft"
    by (simp_all add: validateArticleStructure_def inconsistentArticle_def datedDraft_def
        undatedRecord_def sampleDraft_def)
  have b: "determineReadStatus ''2024-07-01T00:00:00.000Z'' JNull inconsistentArticle
       = Inr (JBool False, JStr ''2024-01-01T00:00:00.000Z'')"
    "determineReadStatus ''2024-07-01T00:00:00.000Z'' JNull datedDraft
       = Inr (JBool False, JStr ''2024-01-01T00:00:00.000Z'')"
    "determineReadStatus ''2024-07-01T00:00:00.000Z'' undatedRecord sampleDraft
       = Inr (JBool True, JNull)"
    by (simp_all add: determineReadStatus_def inconsistentArticle_def datedDraft_def
        undatedRecord_def sampleDraft_def jsor_def)
  have c: "items (snd (importDataFromFile sampleDate sampleURL 5000 undatedBackup popupWorld)) =
       [(''article_https://lethain.com/b'',
         JObj [(''url'', JStr ''https://lethain.com/b''), (''title'', JStr ''B''),
               (''publishedDate'', JStr []), (''dateText'', JStr []),
               (''isRead'', JBool True), (''readDate'', JNull)])]"
    by (simp add: importDataFromFile_def validateImportData_def undatedBackup_def
      processImportBatch_def popupWorld_def emptyWorld_def validateArticle_def processEntry_def
      getStorageKey_def normalize_b storageGet_def storageSet_def nextCall_def
      CONFIG_storage_prefix_def trim_def isWhiteSpace_def jsor_def Let_def
      saveArticles_def getExistingArticlesMap_def getAllArticles_def mergeArticleState_def mapGet_def)
  have d: "items (snd (saveArticles sampleURL 5000 [sampleDraft] None undatedStored)) =
       [(''article_https://lethain.com/a'',
         JObj [(''url'', JStr ''https://lethain.com/a''), (''title'', JStr ''New Title''),
               (''publishedDate'', JStr []), (''dateText'', JStr []),
               (''isRead'', JBool True), (''readDate'', JNull)])]"
    by (simp add: saveArticles_def getExistingArticlesMap_def getAllArticles_def storageGet_def
        storageSet_def nextCall_def undatedStored_def popupWorld_def emptyWorld_def
        undatedRecord_def sampleDraft_def CONFIG_storage_prefix_def normalize_a_slash normalize_a
        getStorageKey_def mergeArticleState_def mapGet_def jsor_def trim_def isWhiteSpace_def
        Let_def)
  show ?thesis using a b c d by (simp add: readStateOk_def)
qed


section \<open>Sync of tracked drafts\<close>

lemma draftUrl_sampleDraft: "draftUrl sampleURL sampleDraft = Some ''https://lethain.com/a''"
  by (simp add: draftUrl_def sampleDraft_def normalize_a_slash trim_def isWhiteSpace_def)

lemma getArticlesCache_fetchFails:
  "getArticlesCache 1000 fetchFailsWorld =
     (Inl (StorageError ''QUOTA_BYTES quota exceeded''),
      \<lparr>items = [(''article_https://lethain.com/a'', readRecord)],
       lastErrors = [], storageCalls = 1, cacheLoaded = True,
       articlesCache = Some [], cacheTimestamp = 1000\<rparr>)"
  by (simp add: getArticlesCache_def getAllArticles_def storageGet_def nextCall_def
      fetchFailsWorld_def)

lemma syncLoop_sampleDraft:
  "syncLoop sampleURL [] [sampleDraft] ([], 0) =
             ([JObj [(''url'', JStr ''https://lethain.com/a''), (''title'', JStr ''New Title''),
                     (''publishedDate'', JStr []), (''dateText'', JStr [])]], 1)"
  by (simp add: sampleDraft_def normalize_a_slash mapHas_def trim_def isWhiteSpace_def)

text \<open>
  Claim C9 (sync skip frame property) does not hold of the code.  The store holds the read
  record of the draft's url.  In a content-script context a call of \<^verbatim>\<open>getArticlesCache\<close>
  at time 1000 fails on its storage call and leaves the empty mapping as the snapshot; the
  store still holds the record, and no later storage call fails.  \<^verbatim>\<open>syncArticles\<close> at
  time 1100 is served that snapshot, counts the draft as new and returns 1, and
  \<^verbatim>\<open>saveArticles\<close> overwrites the stored record with an unread one.
\<close>

theorem syncArticles_overwrites_tracked:
  "items fetchFailsWorld = [(''article_https://lethain.com/a'', readRecord)]
   \<and> storeHolds fetchFailsWorld ''https://lethain.com/a''
   \<and> draftUrl sampleURL sampleDraft = Some ''https://lethain.com/a''
   \<and> fst (getArticlesCache 1000 fetchFailsWorld) = Inl (StorageError ''QUOTA_BYTES quota exceeded'')
   \<and> storeHolds (snd (getArticlesCache 1000 fetchFailsWorld)) ''https://lethain.com/a''
   \<and> storageHealthy (snd (getArticlesCache 1000 fetchFailsWorld))
   \<and> fst (syncArticles sampleURL 1100 [sampleDraft] (snd (getArticlesCache 1000 fetchFailsWorld)))
       = Inr 1
   \<and> items (snd (syncArticles sampleURL 1100 [sampleDraft]
                   (snd (getArticlesCache 1000 fetchFailsWorld)))) =
       [(''article_https://lethain.com/a'',
         JObj [(''url'', JStr ''https://lethain.com/a''), (''title'', JStr ''New Title''),
               (''publishedDate'', JStr []), (''dateText'', JStr []),
               (''isRead'', JBool False), (''readDate'', JNull)])]"
proof -
  let ?w1 = "\<lparr>items = [(''article_https://lethain.com/a'', readRecord)],
       lastErrors = [], storageCalls = 1, cacheLoaded = True,
       articlesCache = Some [], cacheTimestamp = 1000\<rparr>"
  have i: "items fetchFailsWorld = [(''article_https://lethain.com/a'', readRecord)]"
    by (simp add: fetchFailsWorld_def)
  have s: "storeHolds fetchFailsWorld ''https://lethain.com/a''"
    by (simp add: storeHolds_def fetchFailsWorld_def CONFIG_storage_prefix_def readRecord_def)
  have s1: "storeHolds ?w1 ''https://lethain.com/a''"
    by (simp add: storeHolds_def CONFIG_storage_prefix_def readRecord_def)
  have h1: "storageHealthy ?w1"
    by (simp add: storageHealthy_def)
  have m: "getExistingArticlesMap 1100 ?w1 = (Inr [], ?w1)"
    by (simp add: getExistingArticlesMap_def getArticlesCache_def CONFIG_cache_ttl_def)
  have r: "syncArticles sampleURL 1100 [sampleDraft] ?w1 =
     (Inr 1, ?w1\<lparr>storageCalls := 2, items :=
       [(''article_https://lethain.com/a'',
         JObj [(''url'', JStr ''https://lethain.com/a''), (''title'', JStr ''New Title''),
               (''publishedDate'', JStr []), (''dateText'', JStr []),
               (''isRead'', JBool False), (''readDate'', JNull)])]\<rparr>)"
    unfolding syncArticles_def m
    by (simp add: syncLoop_sampleDraft saveArticles_def normalize_a
        getStorageKey_def mergeArticleState_def mapGet_def jsor_def storageSet_def nextCall_def
        CONFIG_storage_prefix_def trim_def isWhiteSpace_def Let_def del: syncLoop.simps)
  show ?thesis
    unfolding getArticlesCache_fetchFails
    using i s s1 h1 r draftUrl_sampleDraft by simp
qed


section \<open>Marking a fresh article as read\<close>

lemma getStorageKey_fixed:
  "n \<noteq> [] \<Longrightarrow> normalizeUrl U n defaultBaseUrl = n \<Longrightarrow> getStorageKey U n = CONFIG_storage_prefix @ n"
  by (simp add: getStorageKey_def)

lemma validateUrl_nonempty: "validateUrl (JStr x) \<Longrightarrow> x \<noteq> []"
  by simp

lemma saveArticle_step:
  assumes v: "validateArticleStructure article"
      and u: "getp article ''url'' = JStr u" "validateUrl (JStr u)"
      and g: "getArticle U (JStr (normalizeUrl U u defaultBaseUrl)) w = (Inr existing, w1)"
      and d: "data = JObj
                            [(''url'', JStr (normalizeUrl U u defaultBaseUrl)),
                             (''title'',
                                jsor (jsor (getp article ''title'')
                                        (jsand existing (getp existing ''title'')))
                                  (JStr [])),
                             (''publishedDate'',
                                jsor (jsor (getp article ''publishedDate'')
                                        (jsand existing (getp existing ''publishedDate'')))
                                  (JStr [])),
                             (''dateText'',
                                jsor (jsor (jsor (getp article ''dateText'')
                                              (getp article ''publishedDate''))
                                        (jsand existing (getp existing ''dateText'')))
                                  (JStr [])),
                             (''isRead'', isRead),
                             (''readDate'', readDate)]"
      and rs: "determineReadStatus now existing article = Inr (isRead, readDate)"
      and s: "storageSet [(getStorageKey U (normalizeUrl U u defaultBaseUrl), data)] w1 = (Inr (), w2)"
  shows "saveArticle U now article w = (Inr data, w2)"
proof -
  have t: "truthy article" "typeofObject article"
    using v by (auto simp: validateArticleStructure_def split: if_splits)
  have tu: "truthy (getp article ''url'')" using u by simp
  show ?thesis
    unfolding saveArticle_def
    using v u t tu g rs s[unfolded d]
    by (simp add: Let_def d del: getArticle.simps validateUrl.simps)
qed

text \<open>
  Claim C8 (fresh mark-as-read), as the code has it.  The url goes through
  \<^verbatim>\<open>normalizeUrl\<close> several times on its way to the store, so the claim needs the normalized
  input to be a fixed point of \<^verbatim>\<open>normalizeUrl\<close> (and a valid url itself).  Then, on an
  empty store none of whose calls fails, \<^verbatim>\<open>markAsRead(url)\<close> returns a record whose url
  is the normalized input, whose isRead is \<^verbatim>\<open>true\<close> and whose readDate is the current
  timestamp, and the \<^verbatim>\<open>getArticle(url)\<close> that follows returns that record.
\<close>

theorem markAsRead_fresh:
  assumes empty: "items w = []"
      and healthy: "storageHealthy w"
      and valid: "validateUrl (JStr url)"
      and n: "n = normalizeUrl U url defaultBaseUrl"
      and fixed: "normalizeUrl U n defaultBaseUrl = n"
      and nvalid: "validateUrl (JStr n)"
  shows "\<exists>record w'. markAsRead U now (JStr url) link el w = (Inr record, w')
           \<and> getp record ''url'' = JStr n
           \<and> getp record ''isRead'' = JBool True
           \<and> getp record ''readDate'' = JStr now
           \<and> fst (getArticle U (JStr url) w') = Inr record"
proof -
  let ?key = "CONFIG_storage_prefix @ n"
  have ne: "n \<noteq> []" using nvalid by simp
  have key: "getStorageKey U n = ?key" using getStorageKey_fixed[OF ne fixed] .
  define title where "title = (case link of None \<Rightarrow> [] | Some text \<Rightarrow> strOr (trim text) [])"
  define pd where "pd = (case el of
                            Some (Some time) \<Rightarrow>
                              strOr (strOr (case datetimeAttr time of None \<Rightarrow> [] | Some d \<Rightarrow> d)
                                       (trim (textContent time))) []
                          | _ \<Rightarrow> [])"
  define dt where "dt = (case el of
                            Some (Some time) \<Rightarrow> strOr (trim (textContent time)) []
                          | _ \<Rightarrow> [])"
  define newArticle where "newArticle = JObj
                         [(''url'', JStr n),
                          (''title'', JStr title),
                          (''publishedDate'', JStr pd),
                          (''dateText'', JStr dt),
                          (''isRead'', JBool False),
                          (''readDate'', JNull)]"
  define created where "created = JObj
                         [(''url'', JStr n),
                          (''title'', JStr title),
                          (''publishedDate'', JStr pd),
                          (''dateText'', JStr (strOr dt pd)),
                          (''isRead'', JBool False),
                          (''readDate'', JNull)]"
  define marked where "marked = JObj
                         [(''url'', JStr n),
                          (''title'', JStr title),
                          (''publishedDate'', JStr pd),
                          (''dateText'', JStr (strOr dt pd)),
                          (''isRead'', JBool True),
                          (''readDate'', JStr now)]"
  \<comment> \<open>getOrCreateArticle: nothing is stored for the url\<close>
  obtain w1 where g1: "getArticle U (JStr n) w = (Inr JNull, w1)"
    and h1: "storageHealthy w1" and i1: "items w1 = []"
    using getArticle_value[OF healthy nvalid, of U] empty by (auto simp: jsor_def)
  \<comment> \<open>saveArticle of the new article\<close>
  obtain w2 where g2: "getArticle U (JStr n) w1 = (Inr JNull, w2)"
    and h2: "storageHealthy w2" and i2: "items w2 = []"
    using getArticle_value[OF h1 nvalid, of U] i1 by (auto simp: jsor_def)
  obtain w3 where s3: "storageSet [(?key, created)] w2 = (Inr (), w3)"
    and h3: "storageHealthy w3" and i3: "items w3 = [(?key, created)]"
    using storageSet_value[OF h2, of ?key created] i2 by auto
  have vs: "validateArticleStructure newArticle"
    using ne by (simp add: validateArticleStructure_def newArticle_def)
  have d1: "determineReadStatus now JNull newArticle = Inr (JBool False, JNull)"
    by (simp add: determineReadStatus_def newArticle_def jsor_def)
  have c1: "created = JObj
                            [(''url'', JStr (normalizeUrl U n defaultBaseUrl)),
                             (''title'',
                                jsor (jsor (getp newArticle ''title'')
                                        (jsand JNull (getp JNull ''title'')))
                                  (JStr [])),
                             (''publishedDate'',
                                jsor (jsor (getp newArticle ''publishedDate'')
                                        (jsand JNull (getp JNull ''publishedDate'')))
                                  (JStr [])),
                             (''dateText'',
                                jsor (jsor (jsor (getp newArticle ''dateText'')
                                              (getp newArticle ''publishedDate''))
                                        (jsand JNull (getp JNull ''dateText'')))
                                  (JStr [])),
                             (''isRead'', JBool False),
                             (''readDate'', JNull)]"
    by (simp add: fixed newArticle_def created_def jsor_def jsand_def strOr_def)
  have u1: "getp newArticle ''url'' = JStr n" by (simp add: newArticle_def)
  have save1: "saveArticle U now newArticle w1 = (Inr created, w3)"
    using saveArticle_step[OF vs u1 nvalid _ c1 d1, of w1 w2 w3] g2 s3 fixed key by simp
  have goc: "getOrCreateArticle U now url link el w = (Inr created, w3)"
    using valid n[symmetric] g1 save1
    by (simp add: getOrCreateArticle_def Let_def title_def pd_def dt_def newArticle_def
        del: getArticle.simps)
  \<comment> \<open>saveArticle of the article marked read\<close>
  have upd: "setp (setp created ''isRead'' (JBool True)) ''readDate'' (JStr now) = marked"
    by (simp add: created_def marked_def)
  obtain w4 where g4: "getArticle U (JStr n) w3 = (Inr created, w4)"
    and h4: "storageHealthy w4" and i4: "items w4 = [(?key, created)]"
    using getArticle_value[OF h3 nvalid, of U] i3 fixed key by (auto simp: jsor_def created_def)
  obtain w5 where s5: "storageSet [(?key, marked)] w4 = (Inr (), w5)"
    and h5: "storageHealthy w5" and i5: "items w5 = [(?key, marked)]"
    using storageSet_value[OF h4, of ?key marked] i4 by auto
  have vm: "validateArticleStructure marked"
    using ne by (simp add: validateArticleStructure_def marked_def)
  have d2: "determineReadStatus now created marked = Inr (JBool True, JStr now)"
    by (simp add: determineReadStatus_def marked_def jsor_def)
  have c2: "marked = JObj
                            [(''url'', JStr (normalizeUrl U n defaultBaseUrl)),
                             (''title'',
                                jsor (jsor (getp marked ''title'')
                                        (jsand created (getp created ''title'')))
                                  (JStr [])),
                             (''publishedDate'',
                                jsor (jsor (getp marked ''publishedDate'')
                                        (jsand created (getp created ''publishedDate'')))
                                  (JStr [])),
                             (''dateText'',
                                jsor (jsor (jsor (getp marked ''dateText'')
                                              (getp marked ''publishedDate''))
                                        (jsand created (getp created ''dateText'')))
                                  (JStr [])),
                             (''isRead'', JBool True),
                             (''readDate'', JStr now)]"
    by (simp add: fixed marked_def created_def jsor_def jsand_def strOr_def)
  have u2: "getp marked ''url'' = JStr n" by (simp add: marked_def)
  have save2: "saveArticle U now marked w3 = (Inr marked, w5)"
    using saveArticle_step[OF vm u2 nvalid _ c2 d2, of w3 w4 w5] g4 s5 fixed key by simp
  have tc: "truthy created" by (simp add: created_def)
  have mark: "markAsRead U now (JStr url) link el w = (Inr marked, w5)"
    using valid goc upd save2 tc by simp
  \<comment> \<open>the lookup that follows\<close>
  obtain w6 where g6: "getArticle U (JStr url) w5 = (Inr marked, w6)"
    using getArticle_value[OF h5 valid, of U] i5 n key by (auto simp: jsor_def marked_def)
  have "getp marked ''url'' = JStr n" "getp marked ''isRead'' = JBool True"
    "getp marked ''readDate'' = JStr now"
    by (simp_all add: marked_def)
  then show ?thesis using mark g6 by simp
qed


lemma normalize_a_slash2:
  "normalizeUrl sampleURL ''https://lethain.com/a//'' defaultBaseUrl = ''https://lethain.com/a/''"
  by (simp add: url_eval)

lemma normalize_a_slash3:
  "normalizeUrl sampleURL ''https://lethain.com/a///'' defaultBaseUrl = ''https://lethain.com/a//''"
  by (simp add: url_eval)

lemmas store_eval =
  getOrCreateArticle_def saveArticle_def getStorageKey_def storageGet_def storageSet_def
  nextCall_def CONFIG_storage_prefix_def validateArticleStructure_def determineReadStatus_def
  jsor_def jsand_def strOr_def trim_def isWhiteSpace_def Let_def
  normalize_a normalize_a_slash normalize_a_slash2 normalize_a_slash3

theorem markAsRead_fresh_witness:
  "items emptyWorld = []
   \<and> storageHealthy emptyWorld
   \<and> validateUrl (JStr ''https://lethain.com/a/'')
   \<and> normalizeUrl sampleURL ''https://lethain.com/a/'' defaultBaseUrl = ''https://lethain.com/a''
   \<and> normalizeUrl sampleURL ''https://lethain.com/a'' defaultBaseUrl = ''https://lethain.com/a''
   \<and> validateUrl (JStr ''https://lethain.com/a'')
   \<and> (\<exists>record w'.
         markAsRead sampleURL ''2024-07-01T00:00:00.000Z'' (JStr ''https://lethain.com/a/'')
           None None emptyWorld = (Inr record, w')
         \<and> getp record ''url'' = JStr ''https://lethain.com/a''
         \<and> getp record ''isRead'' = JBool True
         \<and> getp record ''readDate'' = JStr ''2024-07-01T00:00:00.000Z''
         \<and> fst (getArticle sampleURL (JStr ''https://lethain.com/a/'') w') = Inr record)"
proof -
  have e: "items emptyWorld = []" by (simp add: emptyWorld_def)
  have h: "storageHealthy emptyWorld" by (simp add: storageHealthy_def emptyWorld_def)
  have v: "validateUrl (JStr ''https://lethain.com/a/'')"
    by (simp add: trim_def isWhiteSpace_def)
  have nv: "validateUrl (JStr ''https://lethain.com/a'')"
    by (simp add: trim_def isWhiteSpace_def)
  note t = markAsRead_fresh[OF e h v normalize_a_slash[symmetric] normalize_a nv,
      of "''2024-07-01T00:00:00.000Z''" None None]
  show ?thesis using e h v nv normalize_a_slash normalize_a t by blast
qed

text \<open>
  Against claim C8 as stated.  A url with two trailing slashes is valid; its normalized
  form keeps one slash, but the record that \<^verbatim>\<open>markAsRead\<close> returns has the url without
  any.  With three trailing slashes the \<^verbatim>\<open>getArticle\<close> that follows finds nothing.
\<close>

theorem markAsRead_fresh_counterexample:
  "validateUrl (JStr ''https://lethain.com/a//'')
   \<and> normalizeUrl sampleURL ''https://lethain.com/a//'' defaultBaseUrl = ''https://lethain.com/a/''
   \<and> fst (markAsRead sampleURL ''2024-07-01T00:00:00.000Z'' (JStr ''https://lethain.com/a//'')
            None None emptyWorld)
       = Inr (JObj [(''url'', JStr ''https://lethain.com/a''), (''title'', JStr []),
                    (''publishedDate'', JStr []), (''dateText'', JStr []),
                    (''isRead'', JBool True),
                    (''readDate'', JStr ''2024-07-01T00:00:00.000Z'')])
   \<and> validateUrl (JStr ''https://lethain.com/a///'')
   \<and> fst (markAsRead sampleURL ''2024-07-01T00:00:00.000Z'' (JStr ''https://lethain.com/a///'')
            None None emptyWorld)
       = Inr (JObj [(''url'', JStr ''https://lethain.com/a''), (''title'', JStr []),
                    (''publishedDate'', JStr []), (''dateText'', JStr []),
                    (''isRead'', JBool True),
                    (''readDate'', JStr ''2024-07-01T00:00:00.000Z'')])
   \<and> fst (getArticle sampleURL (JStr ''https://lethain.com/a///'')
            (snd (markAsRead sampleURL ''2024-07-01T00:00:00.000Z''
                    (JStr ''https://lethain.com/a///'') None None emptyWorld)))
       = Inr JNull"
proof -
  have v2: "validateUrl (JStr ''https://lethain.com/a//'')"
    and v3: "validateUrl (JStr ''https://lethain.com/a///'')"
    by (simp_all add: trim_def isWhiteSpace_def)
  have m2: "markAsRead sampleURL ''2024-07-01T00:00:00.000Z'' (JStr ''https://lethain.com/a//'')
            None None emptyWorld
       = (Inr (JObj [(''url'', JStr ''https://lethain.com/a''), (''title'', JStr []),
                    (''publishedDate'', JStr []), (''dateText'', JStr []),
                    (''isRead'', JBool True),
                    (''readDate'', JStr ''2024-07-01T00:00:00.000Z'')]),
          emptyWorld\<lparr>storageCalls := 5, items :=
            [(''article_https://lethain.com/a'',
              JObj [(''url'', JStr ''https://lethain.com/a''), (''title'', JStr []),
                    (''publishedDate'', JStr []), (''dateText'', JStr []),
                    (''isRead'', JBool True),
                    (''readDate'', JStr ''2024-07-01T00:00:00.000Z'')])]\<rparr>)"
    by (simp add: store_eval emptyWorld_def)
  have m3: "markAsRead sampleURL ''2024-07-01T00:00:00.000Z'' (JStr ''https://lethain.com/a///'')
            None None emptyWorld
       = (Inr (JObj [(''url'', JStr ''https://lethain.com/a''), (''title'', JStr []),
                    (''publishedDate'', JStr []), (''dateText'', JStr []),
                    (''isRead'', JBool True),
                    (''readDate'', JStr ''2024-07-01T00:00:00.000Z'')]),
          emptyWorld\<lparr>storageCalls := 5, items :=
            [(''article_https://lethain.com/a'',
              JObj [(''url'', JStr ''https://lethain.com/a''), (''title'', JStr []),
                    (''publishedDate'', JStr []), (''dateText'', JStr []),
                    (''isRead'', JBool True),
                    (''readDate'', JStr ''2024-07-01T00:00:00.000Z'')])]\<rparr>)"
    by (simp add: store_eval emptyWorld_def)
  have g3: "fst (getArticle sampleURL (JStr ''https://lethain.com/a///'')
            (snd (markAsRead sampleURL ''2024-07-01T00:00:00.000Z''
                    (JStr ''https://lethain.com/a///'') None None emptyWorld)))
       = Inr JNull"
    unfolding m3 by (simp add: store_eval emptyWorld_def)
  show ?thesis using v2 v3 normalize_a_slash2 m2 m3 g3 by simp
qed

section \<open>Idempotence of the normalization\<close>

lemma endsWith_slash: "endsWith s ''/'' \<longleftrightarrow> s \<noteq> [] \<and> last s = CHR ''/''"
proof (cases s rule: rev_cases)
  case Nil
  then show ?thesis by (simp add: endsWith_def)
next
  case (snoc ys y)
  then show ?thesis by (auto simp: endsWith_def)
qed

lemma endsWith_slash2:
  "endsWith s ''//'' \<longleftrightarrow> endsWith s ''/'' \<and> endsWith (butlast s) ''/''"
proof (cases s rule: rev_cases)
  case Nil
  then show ?thesis by (simp add: endsWith_def)
next
  case (snoc ys y)
  show ?thesis
  proof (cases ys rule: rev_cases)
    case Nil
    then show ?thesis using snoc by (simp add: endsWith_def)
  next
    case (snoc zs z)
    have b: "butlast s = zs @ [z]" using \<open>s = ys @ [y]\<close> snoc by (simp add: butlast_append)
    have s: "s = zs @ [z, y]" using \<open>s = ys @ [y]\<close> snoc by simp
    show ?thesis unfolding b unfolding s by (auto simp: endsWith_def)
  qed
qed

lemma stripSlash_fixed:
  "\<not> endsWith n ''/'' \<or> n = b @ ''/'' \<Longrightarrow> stripSlash b n = n"
  by (auto simp: stripSlash_def)

lemma startsWith_append: "startsWith b p \<Longrightarrow> startsWith (b @ x) p"
proof -
  assume "startsWith b p"
  then have "take (length p) b = p" by (simp add: startsWith_def)
  then have "b = p @ drop (length p) b" by (metis append_take_drop_id)
  then have "b @ x = p @ (drop (length p) b @ x)" by (metis append.assoc)
  then have "take (length p) (b @ x) = p" by (metis append_eq_conv_conj)
  then show ?thesis by (simp add: startsWith_def)
qed

lemma accepted_idempotent:
  assumes "acceptedStable U b u"
  shows "normalizeUrl U (normalizeUrl U u b) b = normalizeUrl U u b"
proof (cases "u = []")
  case True
  then show ?thesis by (simp add: normalizeUrl_def)
next
  case False
  obtain h where acc: "U (trim u) b = Some h"
    and rt: "U (trim h) b = Some h"
    and rts: "endsWith h ''/'' \<longrightarrow> U (trim (butlast h)) b = Some (butlast h)
                   \<or> U (trim (butlast h)) b = Some h"
    and single: "endsWith h ''//'' \<longrightarrow> h = b @ ''//''"
    using assms by (auto simp: acceptedStable_def split: option.splits)
  have n: "normalizeUrl U u b = stripSlash b h"
    using False acc by (simp add: normalizeUrl_def)
  show ?thesis
  proof (cases "endsWith h ''/'' \<and> h \<noteq> b @ ''/''")
    case keep: False
    then have s: "stripSlash b h = h" by (auto simp: stripSlash_def)
    show ?thesis
    proof (cases "h = []")
      case True
      then show ?thesis using n s by (simp add: normalizeUrl_def)
    next
      case False
      then show ?thesis using n s rt by (simp add: normalizeUrl_def)
    qed
  next
    case strip: True
    then have s: "stripSlash b h = butlast h" by (simp add: stripSlash_def)
    show ?thesis
    proof (cases "butlast h = []")
      case True
      then show ?thesis using n s by (simp add: normalizeUrl_def)
    next
      case False
      from rts strip have "U (trim (butlast h)) b = Some (butlast h)
                   \<or> U (trim (butlast h)) b = Some h" by simp
      then show ?thesis
      proof
        assume a: "U (trim (butlast h)) b = Some (butlast h)"
        have "\<not> endsWith (butlast h) ''/'' \<or> butlast h = b @ ''/''"
        proof (cases "endsWith (butlast h) ''/''")
          case True
          then have "endsWith h ''//''" using strip by (simp add: endsWith_slash2)
          then have "h = b @ ''//''" using single by simp
          then show ?thesis by (simp add: butlast_append)
        next
          case False
          then show ?thesis by simp
        qed
        then have "stripSlash b (butlast h) = butlast h" by (rule stripSlash_fixed)
        then show ?thesis using n s a False by (simp add: normalizeUrl_def)
      next
        assume a: "U (trim (butlast h)) b = Some h"
        then show ?thesis using n s False by (simp add: normalizeUrl_def)
      qed
    qed
  qed
qed

lemma fallback_prefix:
  assumes rej: "U (trim u) b = None" and ne: "u \<noteq> []"
      and base: "startsWith b ''http://'' \<or> startsWith b ''https://''"
  shows "startsWith (normalizeUrl U u b) ''http://'' \<or> startsWith (normalizeUrl U u b) ''https://''"
proof -
  let ?n = "stripSlash b (trim u)"
  have r: "normalizeUrl U u b =
             (if startsWith ?n ''http://'' \<or> startsWith ?n ''https://'' then ?n
              else b @ (if startsWith ?n ''/'' then ?n else ''/'' @ ?n))"
    using rej ne by (simp add: normalizeUrl_def Let_def)
  show ?thesis
  proof (cases "startsWith ?n ''http://'' \<or> startsWith ?n ''https://''")
    case True
    then show ?thesis using r by auto
  next
    case False
    then have "normalizeUrl U u b = b @ (if startsWith ?n ''/'' then ?n else ''/'' @ ?n)"
      using r by simp
    then show ?thesis
      using base startsWith_append[of b "''http://''"] startsWith_append[of b "''https://''"]
      by auto
  qed
qed

lemma rejected_idempotent:
  assumes "rejectedStable U b u"
  shows "normalizeUrl U (normalizeUrl U u b) b = normalizeUrl U u b"
proof (cases "u = []")
  case True
  then show ?thesis by (simp add: normalizeUrl_def)
next
  case False
  let ?r = "normalizeUrl U u b"
  have rej: "U (trim u) b = None" and rej2: "U (trim ?r) b = None"
    and tr: "trim ?r = ?r" and sl: "endsWith ?r ''/'' \<longrightarrow> ?r = b @ ''/''"
    and base: "startsWith b ''http://'' \<or> startsWith b ''https://''"
    using assms by (auto simp: rejectedStable_def)
  have p: "startsWith ?r ''http://'' \<or> startsWith ?r ''https://''"
    using fallback_prefix[of U u b, OF rej False base] .
  have s: "stripSlash b ?r = ?r" using sl by (auto simp: stripSlash_def)
  have ne: "?r \<noteq> []" using p by (auto simp: startsWith_def)
  have "normalizeUrl U ?r b =
          (let normalized = stripSlash b (trim ?r)
              in if startsWith normalized ''http://'' \<or> startsWith normalized ''https://''
                 then normalized
                 else b @ (if startsWith normalized ''/'' then normalized
                                 else ''/'' @ normalized))"
    using ne rej2 by (subst normalizeUrl_def) simp
  also have "\<dots> = ?r" using tr s p by (simp add: Let_def)
  finally show ?thesis .
qed

text \<open>
  Claim C6 (normalization idempotence), as the code has it.  \<^verbatim>\<open>normalizeUrl\<close> strips one
  trailing slash per call, and it trims what it hands to the \<^verbatim>\<open>URL\<close> constructor.  It
  is idempotent at every input \<open>u\<close> of one of two kinds.
  \<^item> \<open>acceptedStable\<close>: the constructor accepts \<open>u\<close>; handed the href it returned, it
    returns that href again; if the href ends with a slash, then handed the href without
    that slash it returns the href, with or without the slash; and the href does not end
    with two slashes, unless it is the base followed by two slashes.
  \<^item> \<open>rejectedStable\<close>: the constructor rejects \<open>u\<close>, and rejects the result of the
    fallback branch on \<open>u\<close> as well; that result has no white space around it, and no
    trailing slash left to strip (it does not end with a slash, unless it is the base
    followed by one slash); and the base starts with \<^verbatim>\<open>http://\<close> or \<^verbatim>\<open>https://\<close>.
\<close>

theorem normalizeUrl_idempotent:
  assumes "acceptedStable U b u \<or> rejectedStable U b u"
  shows "normalizeUrl U (normalizeUrl U u b) b = normalizeUrl U u b"
  using assms accepted_idempotent rejected_idempotent by blast

lemma normalize_root:
  "normalizeUrl sampleURL ''https://lethain.com'' defaultBaseUrl = ''https://lethain.com/''"
  by (simp add: url_eval)

lemma normalize_relative:
  "normalizeUrl sampleURL ''/a/'' defaultBaseUrl = ''https://lethain.com/a''"
  by (simp add: url_eval)

lemma normalize_spaced_host:
  "normalizeUrl sampleURL ''https://exa mple.com/x/'' defaultBaseUrl = ''https://exa mple.com/x''"
  by (simp add: url_eval)

lemma normalize_empty_host:
  "normalizeUrl sampleURL ''http:///'' defaultBaseUrl = ''http://''"
  "normalizeUrl sampleURL ''http://'' defaultBaseUrl = ''https://lethain.com/http:/''"
  by (simp_all add: url_eval)

lemma normalize_spaced_tail:
  "normalizeUrl sampleURL ''https://exa mple.com/x /'' defaultBaseUrl = ''https://exa mple.com/x ''"
  "normalizeUrl sampleURL ''https://exa mple.com/x '' defaultBaseUrl = ''https://exa mple.com/x''"
  by (simp_all add: url_eval)

lemma acceptedStable_samples:
  "acceptedStable sampleURL defaultBaseUrl ''https://lethain.com/a/''"
  "acceptedStable sampleURL defaultBaseUrl ''https://lethain.com''"
  "acceptedStable sampleURL defaultBaseUrl ''/a/''"
  by (simp_all add: acceptedStable_def url_eval)

lemma rejectedStable_sample:
  "rejectedStable sampleURL defaultBaseUrl ''https://exa mple.com/x/''"
  unfolding rejectedStable_def normalize_spaced_host
  by (simp add: url_eval)

theorem normalizeUrl_idempotent_witness:
  "acceptedStable sampleURL defaultBaseUrl ''https://lethain.com/a/''
   \<and> normalizeUrl sampleURL ''https://lethain.com/a/'' defaultBaseUrl = ''https://lethain.com/a''
   \<and> normalizeUrl sampleURL ''https://lethain.com/a'' defaultBaseUrl = ''https://lethain.com/a''
   \<and> acceptedStable sampleURL defaultBaseUrl ''https://lethain.com''
   \<and> normalizeUrl sampleURL ''https://lethain.com'' defaultBaseUrl = ''https://lethain.com/''
   \<and> normalizeUrl sampleURL ''https://lethain.com/'' defaultBaseUrl = ''https://lethain.com/''
   \<and> acceptedStable sampleURL defaultBaseUrl ''/a/''
   \<and> normalizeUrl sampleURL ''/a/'' defaultBaseUrl = ''https://lethain.com/a''
   \<and> rejectedStable sampleURL defaultBaseUrl ''https://exa mple.com/x/''
   \<and> normalizeUrl sampleURL ''https://exa mple.com/x/'' defaultBaseUrl = ''https://exa mple.com/x''
   \<and> normalizeUrl sampleURL ''https://exa mple.com/x'' defaultBaseUrl = ''https://exa mple.com/x''"
proof -
  note i = normalizeUrl_idempotent[of sampleURL defaultBaseUrl]
  have a: "normalizeUrl sampleURL ''https://lethain.com/a'' defaultBaseUrl = ''https://lethain.com/a''"
    using i[OF disjI1[OF acceptedStable_samples(1)]] by (simp only: normalize_a_slash)
  have r: "normalizeUrl sampleURL ''https://lethain.com/'' defaultBaseUrl = ''https://lethain.com/''"
    using i[OF disjI1[OF acceptedStable_samples(2)]] by (simp only: normalize_root)
  have x: "normalizeUrl sampleURL ''https://exa mple.com/x'' defaultBaseUrl = ''https://exa mple.com/x''"
    using i[OF disjI2[OF rejectedStable_sample]] by (simp only: normalize_spaced_host)
  show ?thesis
    using acceptedStable_samples rejectedStable_sample normalize_a_slash normalize_root
      normalize_relative normalize_spaced_host a r x
    by simp
qed

text \<open>
  Against claim C6 as stated.  An absolute url with two trailing slashes loses one slash
  at each of the first two calls.  \<^verbatim>\<open>http:///\<close>, which the constructor rejects, goes
  through the fallback branch to \<^verbatim>\<open>http://\<close>, which is rejected again and comes out of the
  fallback branch as a path under the base.  And a rejected url that ends with a space
  and a slash loses the slash at the first call and the space at the second.
\<close>

theorem normalizeUrl_idempotent_counterexample:
  "normalizeUrl sampleURL ''https://lethain.com/a//'' defaultBaseUrl = ''https://lethain.com/a/''
   \<and> normalizeUrl sampleURL (normalizeUrl sampleURL ''https://lethain.com/a//'' defaultBaseUrl)
         defaultBaseUrl = ''https://lethain.com/a''
   \<and> normalizeUrl sampleURL (normalizeUrl sampleURL ''https://lethain.com/a//'' defaultBaseUrl)
         defaultBaseUrl \<noteq> normalizeUrl sampleURL ''https://lethain.com/a//'' defaultBaseUrl
   \<and> normalizeUrl sampleURL ''http:///'' defaultBaseUrl = ''http://''
   \<and> normalizeUrl sampleURL (normalizeUrl sampleURL ''http:///'' defaultBaseUrl) defaultBaseUrl
        = ''https://lethain.com/http:/''
   \<and> normalizeUrl sampleURL (normalizeUrl sampleURL ''http:///'' defaultBaseUrl) defaultBaseUrl
        \<noteq> normalizeUrl sampleURL ''http:///'' defaultBaseUrl
   \<and> normalizeUrl sampleURL ''https://exa mple.com/x /'' defaultBaseUrl = ''https://exa mple.com/x ''
   \<and> normalizeUrl sampleURL (normalizeUrl sampleURL ''https://exa mple.com/x /'' defaultBaseUrl)
         defaultBaseUrl = ''https://exa mple.com/x''
   \<and> normalizeUrl sampleURL (normalizeUrl sampleURL ''https://exa mple.com/x /'' defaultBaseUrl)
         defaultBaseUrl \<noteq> normalizeUrl sampleURL ''https://exa mple.com/x /'' defaultBaseUrl"
  by (simp add: normalize_a_slash2 normalize_a_slash normalize_empty_host normalize_spaced_tail)

section \<open>Two imports of one article\<close>

lemmas import_eval =
  importDataFromFile_def validateImportData_def processImportBatch_def validateArticle_def
  processEntry_def getStorageKey_def normalize_a storageGet_def storageSet_def nextCall_def
  CONFIG_storage_prefix_def trim_def isWhiteSpace_def jsor_def Let_def saveArticles_def
  getExistingArticlesMap_def getAllArticles_def mergeArticleState_def mapGet_def
  mergeArticleDataForImport_def importMerged_def

lemma import_first:
  "importDataFromFile D sampleURL t backupEarlier popupWorld =
     (Inr (1, 0, 0), popupWorld\<lparr>storageCalls := 3, items := storedWith ''2024-01-01T00:00:00.000Z''\<rparr>)"
  "importDataFromFile D sampleURL t backupLater popupWorld =
     (Inr (1, 0, 0), popupWorld\<lparr>storageCalls := 3, items := storedWith ''2024-06-01T00:00:00.000Z''\<rparr>)"
  by (simp_all add: import_eval backupEarlier_def backupLater_def popupWorld_def emptyWorld_def
      storedWith_def)

lemma import_second:
  "items (snd (importDataFromFile D sampleURL t backupLater
                (popupWorld\<lparr>storageCalls := 3, items := storedWith ''2024-01-01T00:00:00.000Z''\<rparr>)))
     = storedWith ''2024-01-01T00:00:00.000Z''"
  "items (snd (importDataFromFile D sampleURL t backupEarlier
                (popupWorld\<lparr>storageCalls := 3, items := storedWith ''2024-06-01T00:00:00.000Z''\<rparr>)))
     = storedWith ''2024-06-01T00:00:00.000Z''"
  by (simp_all add: import_eval backupEarlier_def backupLater_def popupWorld_def emptyWorld_def
      storedWith_def)

text \<open>
  Claim C1 (import commutativity on read-date) does not hold of the code.  On an empty
  store, with any reading of dates: importing the backup with the earlier read date and
  then the one with the later read date leaves the earlier date in the store, and the
  opposite order leaves the later one.  The first import of an article decides; a later
  import of it is merged by \<^verbatim>\<open>mergeArticleState\<close> in \<^verbatim>\<open>saveArticles\<close>, which keeps the
  stored read state.
\<close>

theorem import_order_decides_readDate:
  "items (snd (importDataFromFile D sampleURL t2 backupLater
                 (snd (importDataFromFile D sampleURL t1 backupEarlier popupWorld))))
     = storedWith ''2024-01-01T00:00:00.000Z''
   \<and> items (snd (importDataFromFile D sampleURL t2 backupEarlier
                 (snd (importDataFromFile D sampleURL t1 backupLater popupWorld))))
     = storedWith ''2024-06-01T00:00:00.000Z''"
  by (simp add: import_first import_second)

end
